theory Spec2Isabelle
  imports Main "HOL-Library.Sublist" "HOL-Library.Multiset" "HOL-Library.Char_ord"
    "HOL-Library.List_Lexorder" "HOL-Library.Product_Lexorder"
begin

section \<open>Values of the data model\<close>

text \<open>
  JavaScript strings are modelled as HOL strings (lists of 8-bit characters, one
  character per code unit). A JavaScript \<^verbatim>\<open>number\<close> is modelled by the integers
  together with the three non-finite values; fractional floating-point values are not
  modelled. The type \<open>primitive\<close> is \<^verbatim>\<open>Primitive\<close> of \<^verbatim>\<open>ast.ts\<close>
  (\<^verbatim>\<open>string | number | boolean | null\<close>), which is also the \<^verbatim>\<open>NormalizedValue\<close>
  of the dataflow operators; \<^verbatim>\<open>undefined\<close> is \<open>None\<close> of \<open>primitive option\<close>.
\<close>

datatype number = Finite int | NaN | PosInfinity | NegInfinity

datatype primitive = PNull | PBool bool | PNumber number | PString string

text \<open>The finite numbers that the model stands for are the safe integers of JavaScript
  (\<^verbatim>\<open>Number.isSafeInteger\<close>: magnitude at most \<open>2^53 - 1\<close>). On them the string forms
  and the addition defined below are those of JavaScript. Beyond them JavaScript rounds
  a sum to a double and writes the shortest digits that read back as the same double,
  in exponent form from \<open>10^21\<close> on (\<^verbatim>\<open>1e+21\<close>); those numbers, like the fractions,
  are outside the model, and statements about all values are made for safe values.\<close>

definition isSafeInteger :: "int \<Rightarrow> bool" where
  "isSafeInteger i = (\<bar>i\<bar> \<le> 2 ^ 53 - 1)"

fun safe_value :: "primitive \<Rightarrow> bool" where
  "safe_value (PNumber (Finite i)) = isSafeInteger i"
| "safe_value v = True"

text \<open>\<^verbatim>\<open>normalizeUndefined\<close> of \<^verbatim>\<open>ivm2/data.ts\<close> (imported by \<^verbatim>\<open>join.ts\<close>):
  \<^verbatim>\<open>undefined\<close> becomes \<^verbatim>\<open>null\<close>, every other value is kept.\<close>

definition normalizeUndefined :: "primitive option \<Rightarrow> primitive" where
  "normalizeUndefined v = (case v of None \<Rightarrow> PNull | Some x \<Rightarrow> x)"

subsection \<open>Number to string\<close>

definition digit_char :: "nat \<Rightarrow> char" where
  "digit_char d = ''0123456789'' ! d"

fun digits :: "nat \<Rightarrow> string" where
  "digits n = (if n < 10 then [digit_char n] else digits (n div 10) @ [digit_char (n mod 10)])"

declare digits.simps [simp del]

text \<open>\<^verbatim>\<open>Number.prototype.toString\<close> (radix 10), which is also \<^verbatim>\<open>String(n)\<close>: the
  decimal digits of a safe integer, with its sign.\<close>

fun Number_toString :: "number \<Rightarrow> string" where
  "Number_toString (Finite i) = (if i < 0 then CHR ''-'' # digits (nat (- i)) else digits (nat i))"
| "Number_toString NaN = ''NaN''"
| "Number_toString PosInfinity = ''Infinity''"
| "Number_toString NegInfinity = ''-Infinity''"

subsection \<open>\<^verbatim>\<open>JSON.stringify\<close> on primitives and arrays of primitives\<close>

definition hex_char :: "nat \<Rightarrow> char" where
  "hex_char d = ''0123456789abcdef'' ! d"

text \<open>One code unit inside a JSON string literal (ECMAScript \<^verbatim>\<open>QuoteJSONString\<close>):
  the quote and the backslash are escaped, the control characters below U+0020 are
  written with their short escapes or as \<^verbatim>\<open>\u00xx\<close>, anything else stands for itself.\<close>

definition QuoteJSONChar :: "char \<Rightarrow> string" where
  "QuoteJSONChar c =
    (if c = CHR 0x08 then [CHR 0x5C, CHR ''b'']
     else if c = CHR 0x09 then [CHR 0x5C, CHR ''t'']
     else if c = CHR 0x0A then [CHR 0x5C, CHR ''n'']
     else if c = CHR 0x0C then [CHR 0x5C, CHR ''f'']
     else if c = CHR 0x0D then [CHR 0x5C, CHR ''r'']
     else if c = CHR 0x22 then [CHR 0x5C, CHR 0x22]
     else if c = CHR 0x5C then [CHR 0x5C, CHR 0x5C]
     else if (of_char c :: nat) < 32 then
       [CHR 0x5C, CHR ''u'', CHR ''0'', CHR ''0'',
        hex_char (of_char c div 16), hex_char (of_char c mod 16)]
     else [c])"

definition QuoteJSONString :: "string \<Rightarrow> string" where
  "QuoteJSONString s = [CHR 0x22] @ concat (map QuoteJSONChar s) @ [CHR 0x22]"

text \<open>\<^verbatim>\<open>JSON.stringify\<close> of one primitive: a non-finite number is written \<^verbatim>\<open>null\<close>.\<close>

fun JSON_stringify :: "primitive \<Rightarrow> string" where
  "JSON_stringify PNull = ''null''"
| "JSON_stringify (PBool b) = (if b then ''true'' else ''false'')"
| "JSON_stringify (PNumber (Finite i)) = Number_toString (Finite i)"
| "JSON_stringify (PNumber n) = ''null''"
| "JSON_stringify (PString s) = QuoteJSONString s"

fun join_commas :: "string list \<Rightarrow> string" where
  "join_commas [] = []"
| "join_commas [x] = x"
| "join_commas (x # y # ys) = x @ '','' @ join_commas (y # ys)"

definition JSON_stringify_array :: "primitive list \<Rightarrow> string" where
  "JSON_stringify_array vs = ''['' @ join_commas (map JSON_stringify vs) @ '']''"

text \<open>\<^verbatim>\<open>String.prototype.substring(start, end)\<close>: the arguments are swapped when
  \<open>start > end\<close> and clamped to the length.\<close>

definition substring :: "string \<Rightarrow> nat \<Rightarrow> nat \<Rightarrow> string" where
  "substring s a b = take (max a b - min a b) (drop (min a b) s)"

section \<open>Join: the primary-key-set storage keys (\<^verbatim>\<open>ivm2/join.ts\<close>)\<close>

definition createPrimaryKeySetStorageKey :: "primitive list \<Rightarrow> string" where
  "createPrimaryKeySetStorageKey vals =
    (let json = JSON_stringify_array (PString ''pKeySet'' # vals)
     in substring json 1 (length json - 1) @ '','')"

definition createPrimaryKeySetStorageKeyPrefix :: "primitive \<Rightarrow> string" where
  "createPrimaryKeySetStorageKeyPrefix v = createPrimaryKeySetStorageKey [v]"


section \<open>Rows, nodes and changes (\<^verbatim>\<open>ivm2/data.ts\<close>, \<^verbatim>\<open>ivm2/change.ts\<close>)\<close>

text \<open>A row is a JavaScript object from column names to values; reading a column that
  the row does not have gives \<^verbatim>\<open>undefined\<close>.\<close>

type_synonym row = "(string \<times> primitive) list"

definition row_get :: "row \<Rightarrow> string \<Rightarrow> primitive option" where
  "row_get r k = map_of r k"

text \<open>The object spread \<^verbatim>\<open>{...obj, [k]: v}\<close>: an existing property keeps its place and
  takes the new value, a new property is added last.\<close>

fun object_set :: "(string \<times> 'a) list \<Rightarrow> string \<Rightarrow> 'a \<Rightarrow> (string \<times> 'a) list" where
  "object_set [] k v = [(k, v)]"
| "object_set ((k', v') # ps) k v = (if k' = k then (k, v) # ps else (k', v') # object_set ps k v)"

record constraint =
  c_key :: string
  c_value :: "primitive option"

record FetchRequest =
  req_constraint :: "constraint option"

datatype ProcessParentMode = fetch | cleanup

text \<open>A relationship of a node is a lazy stream of child nodes. The stream that Join
  attaches is the generator returned by \<^verbatim>\<open>this.#child[method](req)\<close>; it is modelled by
  the pull it stands for: the method and the request.\<close>

datatype stream = Pull ProcessParentMode FetchRequest

record node =
  row :: row
  relationships :: "(string \<times> stream) list"

datatype change =
    AddChange node
  | RemoveChange node
  | ChildChange row string change

section \<open>Operator storage\<close>

text \<open>Modelled from the spec: the \<^verbatim>\<open>Storage\<close> interface of \<^verbatim>\<open>ivm2/operator.ts\<close> is not
  among the sources. Per the specification (Operator storage) it is a sorted key-value map
  with \<open>set(key, value)\<close>, \<open>del(key)\<close> and \<open>scan(prefix)\<close>, the latter yielding the entries
  whose key starts with the prefix, in key order. Join stores the value \<^verbatim>\<open>true\<close>.\<close>

type_synonym storage = "(string \<times> bool) list"

definition storage_set :: "storage \<Rightarrow> string \<Rightarrow> bool \<Rightarrow> storage" where
  "storage_set st k v = (k, v) # filter (\<lambda>e. fst e \<noteq> k) st"

definition storage_del :: "storage \<Rightarrow> string \<Rightarrow> storage" where
  "storage_del st k = filter (\<lambda>e. fst e \<noteq> k) st"

definition storage_scan :: "storage \<Rightarrow> string \<Rightarrow> (string \<times> bool) list" where
  "storage_scan st p = sort_key fst (filter (\<lambda>e. prefix p (fst e)) st)"

section \<open>The Join operator (\<^verbatim>\<open>ivm2/join.ts\<close>)\<close>

text \<open>The fields of a \<^verbatim>\<open>Join\<close>. \<open>parentPrimaryKey\<close> is
  \<^verbatim>\<open>this.#parent.getSchema().primaryKey\<close>; \<open>output_set\<close> says whether \<^verbatim>\<open>setOutput\<close> has been
  called. The storage is passed explicitly and returned updated.\<close>

record Join =
  parentKey :: string
  childKey :: string
  relationshipName :: string
  parentPrimaryKey :: "string list"
  output_set :: bool

text \<open>An input operator, as Join uses its parent: the nodes \<^verbatim>\<open>fetch\<close> and \<^verbatim>\<open>cleanup\<close>
  yield for a request.\<close>

record Input =
  input_fetch :: "FetchRequest \<Rightarrow> node list"
  input_cleanup :: "FetchRequest \<Rightarrow> node list"

definition processParentNode ::
  "Join \<Rightarrow> storage \<Rightarrow> node \<Rightarrow> ProcessParentMode \<Rightarrow> node \<times> storage" where
  "processParentNode j st parentNode mode =
    (let parentKeyValue = normalizeUndefined (row_get (row parentNode) (parentKey j));
         parentPrimaryKeyValues =
           map (\<lambda>k. normalizeUndefined (row_get (row parentNode) k)) (parentPrimaryKey j);
         storageKey = createPrimaryKeySetStorageKey (parentKeyValue # parentPrimaryKeyValues);
         method =
           (case mode of
              fetch \<Rightarrow> fetch
            | cleanup \<Rightarrow>
                (case take 2 (storage_scan st (createPrimaryKeySetStorageKeyPrefix parentKeyValue)) of
                   _ # second # _ \<Rightarrow> fetch
                 | _ \<Rightarrow> cleanup));
         childStream =
           Pull method \<lparr>req_constraint = Some \<lparr>c_key = childKey j, c_value = Some parentKeyValue\<rparr>\<rparr>;
         st' =
           (case mode of
              fetch \<Rightarrow> storage_set st storageKey True
            | cleanup \<Rightarrow> storage_del st storageKey)
     in (parentNode\<lparr>relationships :=
           object_set (relationships parentNode) (relationshipName j) childStream\<rparr>, st'))"

text \<open>\<^verbatim>\<open>Join.fetch\<close> and \<^verbatim>\<open>Join.cleanup\<close>, consumed to the end: every parent node is
  processed in turn, the storage threaded through.\<close>

fun processParentNodes ::
  "Join \<Rightarrow> storage \<Rightarrow> node list \<Rightarrow> ProcessParentMode \<Rightarrow> node list \<times> storage" where
  "processParentNodes j st [] mode = ([], st)"
| "processParentNodes j st (parentNode # rest) mode =
    (let (n, st1) = processParentNode j st parentNode mode;
         (ns, st2) = processParentNodes j st1 rest mode
     in (n # ns, st2))"

definition Join_fetch :: "Join \<Rightarrow> Input \<Rightarrow> storage \<Rightarrow> FetchRequest \<Rightarrow> node list \<times> storage" where
  "Join_fetch j parent st req = processParentNodes j st (input_fetch parent req) fetch"

definition Join_cleanup :: "Join \<Rightarrow> Input \<Rightarrow> storage \<Rightarrow> FetchRequest \<Rightarrow> node list \<times> storage" where
  "Join_cleanup j parent st req = processParentNodes j st (input_cleanup parent req) cleanup"

datatype error = Error string

datatype push_from = from_parent | from_child

text \<open>\<^verbatim>\<open>Join.#push\<close>: the result is the list of changes pushed to the output, in order,
  and the storage afterwards; the failed assertion is the error.\<close>

definition Join_push ::
  "Join \<Rightarrow> Input \<Rightarrow> storage \<Rightarrow> change \<Rightarrow> push_from \<Rightarrow> error + (change list \<times> storage)" where
  "Join_push j parent st chg src =
    (if \<not> output_set j then Inl (Error ''Output not set'')
     else case src of
       from_parent \<Rightarrow>
         (case chg of
            AddChange n \<Rightarrow>
              (let (n', st') = processParentNode j st n fetch in Inr ([AddChange n'], st'))
          | RemoveChange n \<Rightarrow>
              (let (n', st') = processParentNode j st n cleanup in Inr ([RemoveChange n'], st'))
          | ChildChange r name c \<Rightarrow> Inr ([chg], st))
     | from_child \<Rightarrow>
         (let childRow = (case chg of ChildChange r name c \<Rightarrow> r
                          | AddChange n \<Rightarrow> row n | RemoveChange n \<Rightarrow> row n);
              parentNodes = input_fetch parent
                \<lparr>req_constraint = Some \<lparr>c_key = parentKey j, c_value = row_get childRow (childKey j)\<rparr>\<rparr>
          in Inr (map (\<lambda>parentNode. ChildChange (row parentNode) (relationshipName j) chg) parentNodes, st)))"

text \<open>Modelled from the spec: the \<^verbatim>\<open>Source\<close> operator is not among the sources. Per the
  specification (Source), \<open>fetch\<close> yields the current rows, wrapped as nodes, filtered by
  the optional equality constraint.\<close>

definition Source_fetch :: "row list \<Rightarrow> FetchRequest \<Rightarrow> node list" where
  "Source_fetch rows req =
    map (\<lambda>r. \<lparr>row = r, relationships = []\<rparr>)
      (case req_constraint req of
         None \<Rightarrow> rows
       | Some c \<Rightarrow> filter (\<lambda>r. row_get r (c_key c) = c_value c) rows)"

definition Source :: "row list \<Rightarrow> Input" where
  "Source rows = \<lparr>input_fetch = Source_fetch rows, input_cleanup = Source_fetch rows\<rparr>"

text \<open>The values that \<^verbatim>\<open>JSON.stringify\<close> writes as \<^verbatim>\<open>null\<close>.\<close>

definition json_null_like :: "primitive \<Rightarrow> bool" where
  "json_null_like v =
    (v = PNull \<or> v = PNumber NaN \<or> v = PNumber PosInfinity \<or> v = PNumber NegInfinity)"

section \<open>Notions used to state the properties of Join\<close>

text \<open>The join value of a parent node and the storage key under which
  \<open>processParentNode\<close> records it (the local variables \<^verbatim>\<open>parentKeyValue\<close> and
  \<^verbatim>\<open>storageKey\<close>), and the method of the child stream attached under the relationship
  name of the Join.\<close>

definition parentKeyValue_of :: "Join \<Rightarrow> node \<Rightarrow> primitive" where
  "parentKeyValue_of j n = normalizeUndefined (row_get (row n) (parentKey j))"

definition storageKey_of :: "Join \<Rightarrow> node \<Rightarrow> string" where
  "storageKey_of j n = createPrimaryKeySetStorageKey
     (parentKeyValue_of j n # map (\<lambda>k. normalizeUndefined (row_get (row n) k)) (parentPrimaryKey j))"

definition child_method :: "Join \<Rightarrow> node \<Rightarrow> ProcessParentMode option" where
  "child_method j n = (case map_of (relationships n) (relationshipName j) of
       Some (Pull m req) \<Rightarrow> Some m | None \<Rightarrow> None)"


text \<open>The scenario of the specification: two parents that share the join value \<^verbatim>\<open>u1\<close>,
  and one child row with that value.\<close>

definition ex_join :: Join where
  "ex_join = \<lparr>parentKey = ''uid'', childKey = ''uid'', relationshipName = ''comments'',
     parentPrimaryKey = [''id''], output_set = True\<rparr>"

definition ex_parent1 :: row where
  "ex_parent1 = [(''id'', PString ''i1''), (''uid'', PString ''u1'')]"

definition ex_parent2 :: row where
  "ex_parent2 = [(''id'', PString ''i2''), (''uid'', PString ''u1'')]"

definition ex_child :: row where
  "ex_child = [(''id'', PString ''c1''), (''uid'', PString ''u1'')]"

definition ex_child_request :: FetchRequest where
  "ex_child_request = \<lparr>req_constraint = Some \<lparr>c_key = ''uid'', c_value = Some (PString ''u1'')\<rparr>\<rparr>"

text \<open>A fetch that asks for the first parent only.\<close>

definition ex_parent1_request :: FetchRequest where
  "ex_parent1_request = \<lparr>req_constraint = Some \<lparr>c_key = ''id'', c_value = Some (PString ''i1'')\<rparr>\<rparr>"

section \<open>LIKE and ILIKE predicates (\<^verbatim>\<open>ast-to-ivm/pipeline-builder.ts\<close>)\<close>

subsection \<open>The JavaScript regular expressions that \<open>patternToRegExp\<close> builds\<close>

text \<open>The \<^verbatim>\<open>SyntaxCharacter\<close>s of ECMAScript regular expressions; the character class of
  \<^verbatim>\<open>specialCharsRe\<close> in the source lists the same fourteen characters.\<close>

definition specialCharsRe_test :: "char \<Rightarrow> bool" where
  "specialCharsRe_test c = (c \<in> set ''$()*+.?[]^{|}'' \<or> c = CHR 0x5C)"

text \<open>\<^verbatim>\<open>new RegExp(source, flags)\<close> and \<^verbatim>\<open>RegExp.prototype.test\<close>, for the fragment of
  the regular-expression language that \<open>patternToRegExp\<close> can produce: the pattern
  starts with \<^verbatim>\<open>^\<close> and ends with an unescaped \<^verbatim>\<open>$\<close>, and in between stand atoms, each
  optionally followed by \<^verbatim>\<open>*\<close>. An atom is \<^verbatim>\<open>.\<close>, a backslash followed by a syntax
  character (that character, literally) or a character that is not a syntax character.
  A source outside this fragment is not interpreted (\<open>None\<close>); the lemma
  \<open>patternToRegExp_compiles\<close> shows that \<open>patternToRegExp\<close> never builds one.\<close>

datatype like_flags = NoFlag | IgnoreCase

datatype re_atom = Dot | Lit char

record RegExp =
  re_atoms :: "(re_atom \<times> bool) list"
  re_ignoreCase :: bool

definition take_star :: "string \<Rightarrow> bool \<times> string" where
  "take_star s = (case s of [] \<Rightarrow> (False, [])
     | c # r \<Rightarrow> if c = CHR ''*'' then (True, r) else (False, s))"

function parse_atoms :: "string \<Rightarrow> (re_atom \<times> bool) list option" where
  "parse_atoms [] = None"
| "parse_atoms (c # rest) =
    (if c = CHR ''$'' then (if rest = [] then Some [] else None)
     else if c = CHR 0x5C then
       (case rest of
          [] \<Rightarrow> None
        | e # rest' \<Rightarrow>
            if specialCharsRe_test e
            then map_option (Cons (Lit e, fst (take_star rest'))) (parse_atoms (snd (take_star rest')))
            else None)
     else if c = CHR ''.'' then
       map_option (Cons (Dot, fst (take_star rest))) (parse_atoms (snd (take_star rest)))
     else if specialCharsRe_test c then None
     else map_option (Cons (Lit c, fst (take_star rest))) (parse_atoms (snd (take_star rest))))"
  by pat_completeness auto
termination
  by (relation "measure length") (auto simp: take_star_def split: list.splits if_splits)

definition RegExp_new :: "string \<Rightarrow> like_flags \<Rightarrow> RegExp option" where
  "RegExp_new source flags =
    (case source of
       [] \<Rightarrow> None
     | c # rest \<Rightarrow>
         if c = CHR ''^''
         then map_option (\<lambda>atoms. \<lparr>re_atoms = atoms, re_ignoreCase = (flags = IgnoreCase)\<rparr>)
                (parse_atoms rest)
         else None)"

text \<open>\<^verbatim>\<open>Canonicalize\<close> of the regular-expression semantics under the \<^verbatim>\<open>i\<close> flag
  (without the \<^verbatim>\<open>u\<close> flag): the code unit of \<^verbatim>\<open>toUpperCase\<close> when that is a single
  code unit. On the code units up to U+00FF: the letters a-z and U+00E0-U+00FE (except
  the division sign U+00F7) move down by 32, U+00B5 maps to U+039C, U+00FF maps to
  U+0178, and every other code unit is kept (U+00DF has a two-unit upper case).\<close>

definition Canonicalize :: "char \<Rightarrow> nat" where
  "Canonicalize c =
    (let n = of_char c in
     if 97 \<le> n \<and> n \<le> 122 then n - 32
     else if 224 \<le> n \<and> n \<le> 254 \<and> n \<noteq> 247 then n - 32
     else if n = 181 then 924
     else if n = 255 then 376
     else n)"

text \<open>A line terminator, which \<^verbatim>\<open>.\<close> does not match (no \<^verbatim>\<open>s\<close> flag): line feed and
  carriage return (U+2028 and U+2029 lie outside the modelled code units).\<close>

definition is_line_terminator :: "char \<Rightarrow> bool" where
  "is_line_terminator c = (c = CHR 0x0A \<or> c = CHR 0x0D)"

definition atom_matches :: "bool \<Rightarrow> re_atom \<Rightarrow> char \<Rightarrow> bool" where
  "atom_matches ignoreCase a c =
    (case a of
       Dot \<Rightarrow> \<not> is_line_terminator c
     | Lit l \<Rightarrow> if ignoreCase then Canonicalize l = Canonicalize c else l = c)"

text \<open>Matching the atoms against the whole input (the pattern is anchored at both ends).\<close>

fun atoms_match :: "bool \<Rightarrow> (re_atom \<times> bool) list \<Rightarrow> string \<Rightarrow> bool" where
  "atoms_match ic [] s = (s = [])"
| "atoms_match ic ((a, False) # ts) [] = False"
| "atoms_match ic ((a, False) # ts) (c # cs) = (atom_matches ic a c \<and> atoms_match ic ts cs)"
| "atoms_match ic ((a, True) # ts) [] = atoms_match ic ts []"
| "atoms_match ic ((a, True) # ts) (c # cs) =
     (atoms_match ic ts (c # cs) \<or> (atom_matches ic a c \<and> atoms_match ic ((a, True) # ts) cs))"

definition RegExp_test :: "RegExp \<Rightarrow> string \<Rightarrow> bool" where
  "RegExp_test re s = atoms_match (re_ignoreCase re) (re_atoms re) s"

text \<open>\<^verbatim>\<open>String.prototype.toLowerCase\<close> on the code units up to U+00FF: the letters A-Z
  and U+00C0-U+00DE (except the multiplication sign U+00D7) move up by 32.\<close>

definition toLowerCase_char :: "char \<Rightarrow> char" where
  "toLowerCase_char c =
    (let n = (of_char c :: nat) in
     if (65 \<le> n \<and> n \<le> 90) \<or> (192 \<le> n \<and> n \<le> 222 \<and> n \<noteq> 215) then char_of (n + 32) else c)"

definition toLowerCase :: "string \<Rightarrow> string" where
  "toLowerCase s = map toLowerCase_char s"

subsection \<open>\<open>patternToRegExp\<close> and \<open>getLikeOp\<close>\<close>


text \<open>The loop of \<open>patternToRegExp\<close>: \<open>pattern\<close> is the regular expression built so far,
  the second argument is what is left of \<open>source\<close> from index \<open>i\<close> on.\<close>

fun patternToRegExp_loop :: "string \<Rightarrow> string \<Rightarrow> error + string" where
  "patternToRegExp_loop pattern [] = Inr pattern"
| "patternToRegExp_loop pattern (c # rest) =
    (if c = CHR ''%'' then patternToRegExp_loop (pattern @ ''.*'') rest
     else if c = CHR ''_'' then patternToRegExp_loop (pattern @ ''.'') rest
     else if c = CHR 0x5C then
       (case rest of
          [] \<Rightarrow> Inl (Error ''LIKE pattern must not end with escape character'')
        | c' # rest' \<Rightarrow>
            patternToRegExp_loop
              (pattern @ (if specialCharsRe_test c' then [CHR 0x5C] else []) @ [c']) rest')
     else patternToRegExp_loop
            (pattern @ (if specialCharsRe_test c then [CHR 0x5C] else []) @ [c]) rest)"

definition patternToRegExp :: "string \<Rightarrow> like_flags \<Rightarrow> error + RegExp" where
  "patternToRegExp source flags =
    (case patternToRegExp_loop ''^'' source of
       Inl e \<Rightarrow> Inl e
     | Inr pattern \<Rightarrow>
         (case RegExp_new (pattern @ ''$'') flags of
            None \<Rightarrow> Inl (Error ''SyntaxError: Invalid regular expression'')
          | Some re \<Rightarrow> Inr re))"

text \<open>\<^verbatim>\<open>String(v)\<close> for a primitive.\<close>

fun String_of :: "primitive \<Rightarrow> string" where
  "String_of PNull = ''null''"
| "String_of (PBool b) = (if b then ''true'' else ''false'')"
| "String_of (PNumber n) = Number_toString n"
| "String_of (PString s) = s"

text \<open>The test \<^verbatim>\<open>/_|%|\\/.test(pattern)\<close>.\<close>

definition has_wildcard_or_escape :: "string \<Rightarrow> bool" where
  "has_wildcard_or_escape s = list_ex (\<lambda>c. c = CHR ''_'' \<or> c = CHR ''%'' \<or> c = CHR 0x5C) s"

text \<open>\<open>getLikeOp\<close> returns the predicate or throws. Its parameter is declared a
  \<^verbatim>\<open>string\<close>, and \<open>getOperator\<close> passes the literal of the condition uncast; the model
  follows the JavaScript on every primitive: the regular-expression test converts the
  pattern with \<^verbatim>\<open>String\<close>, a literal that is not a string has no \<^verbatim>\<open>toLowerCase\<close> method
  (a \<^verbatim>\<open>TypeError\<close>), and is never strictly equal to a string. The predicates are
  modelled on string inputs.\<close>

definition getLikeOp :: "primitive \<Rightarrow> like_flags \<Rightarrow> error + (string \<Rightarrow> bool)" where
  "getLikeOp pattern flags =
    (if \<not> has_wildcard_or_escape (String_of pattern) then
       (if flags = IgnoreCase then
          (case pattern of
             PString s \<Rightarrow> Inr (\<lambda>lhs. toLowerCase lhs = toLowerCase s)
           | _ \<Rightarrow> Inl (Error ''TypeError: pattern.toLowerCase is not a function''))
        else Inr (\<lambda>lhs. PString lhs = pattern))
     else
       (case patternToRegExp (String_of pattern) flags of
          Inl e \<Rightarrow> Inl e
        | Inr re \<Rightarrow> Inr (\<lambda>lhs. RegExp_test re lhs)))"

definition not_op :: "('a \<Rightarrow> bool) \<Rightarrow> ('a \<Rightarrow> bool)" where
  "not_op f = (\<lambda>lhs. \<not> f lhs)"

section \<open>The query AST (\<^verbatim>\<open>ast/ast.ts\<close>)\<close>

datatype Aggregate = Agg_sum | Agg_avg | Agg_min | Agg_max | Agg_array | Agg_count

record Aggregation =
  agg_field :: "string option"
  agg_alias :: string
  agg_aggregate :: Aggregate

datatype SimpleOperator =
    OpEq | OpNe | OpLt | OpGt | OpLe | OpGe | OpIN | OpNOT_IN
  | LIKE | NOT_LIKE | ILIKE | NOT_ILIKE

datatype ConjunctionOp = OpAND | OpOR

text \<open>A \<^verbatim>\<open>SimpleCondition\<close> has an operator, a field and a literal value; a
  \<^verbatim>\<open>Conjunction\<close> has an operator and a list of conditions.\<close>

datatype Condition =
    Simple SimpleOperator string primitive
  | Conjunction ConjunctionOp "Condition list"

datatype direction = asc | desc

type_synonym Ordering = "string list \<times> direction"

record AST =
  ast_table :: string
  ast_alias :: "string option"
  ast_select :: "(string \<times> string) list option"
  ast_aggregate :: "Aggregation list option"
  ast_where :: "Condition option"
  ast_limit :: "int option"
  ast_groupBy :: "string list option"
  ast_orderBy :: Ordering

section \<open>The pipeline builder (\<^verbatim>\<open>ast-to-ivm/pipeline-builder.ts\<close>)\<close>

text \<open>The predicate that \<open>getOperator\<close> returns. The comparison and membership operators
  give the closure \<^verbatim>\<open>lhs => lhs op rhs\<close>, kept here as the operator and the right-hand
  side (building it never throws); the four LIKE operators give the predicate of
  \<open>getLikeOp\<close>, negated by \<open>not\<close> for the NOT forms. The \<^verbatim>\<open>default\<close> branch of the switch
  is unreachable for a \<^verbatim>\<open>SimpleOperator\<close>.\<close>

datatype operator_fn =
    Compare SimpleOperator primitive
  | LikePredicate "string \<Rightarrow> bool"

definition getOperator :: "SimpleOperator \<Rightarrow> primitive \<Rightarrow> error + operator_fn" where
  "getOperator op rhs =
    (case op of
       LIKE \<Rightarrow> map_sum id LikePredicate (getLikeOp rhs NoFlag)
     | NOT_LIKE \<Rightarrow> map_sum id (\<lambda>f. LikePredicate (not_op f)) (getLikeOp rhs NoFlag)
     | ILIKE \<Rightarrow> map_sum id LikePredicate (getLikeOp rhs IgnoreCase)
     | NOT_ILIKE \<Rightarrow> map_sum id (\<lambda>f. LikePredicate (not_op f)) (getLikeOp rhs IgnoreCase)
     | _ \<Rightarrow> Inr (Compare op rhs))"

text \<open>The operator graph that the builder assembles from the methods of
  \<^verbatim>\<open>DifferenceStream\<close> (a class that is not among the sources): each constructor records
  one method call and its arguments. \<open>Reduce\<close> is \<^verbatim>\<open>stream.reduce\<close> with the key function of
  the group columns, the identity \<^verbatim>\<open>value.id\<close> and the reducer over the aggregations.\<close>

datatype pipeline =
    SourceStream string
  | Filter pipeline "string \<times> string" operator_fn
  | Concat "pipeline list"
  | Distinct pipeline
  | Reduce pipeline "string list" "Aggregation list"
  | Average pipeline "string option" string
  | Count pipeline string
  | Sum pipeline "string option" string

text \<open>\<^verbatim>\<open>String.prototype.split\<close> with a one-character separator.\<close>

fun split_on :: "char \<Rightarrow> string \<Rightarrow> string list" where
  "split_on sep [] = [[]]"
| "split_on sep (c # cs) =
    (if c = sep then [] # split_on sep cs
     else (c # hd (split_on sep cs)) # tl (split_on sep cs))"

definition applySimpleCondition ::
  "pipeline \<Rightarrow> SimpleOperator \<Rightarrow> string \<Rightarrow> primitive \<Rightarrow> error + pipeline" where
  "applySimpleCondition stream op selector rhs =
    (case getOperator op rhs of
       Inl e \<Rightarrow> Inl e
     | Inr operator \<Rightarrow>
         (let qualifiedColumn =
                (if CHR ''.'' \<in> set selector
                 then (split_on (CHR ''.'') selector ! 0, split_on (CHR ''.'') selector ! 1)
                 else (selector, selector))
          in Inr (Filter stream qualifiedColumn operator)))"

fun applyWhere :: "pipeline \<Rightarrow> Condition \<Rightarrow> error + pipeline"
  and applyAnd :: "pipeline \<Rightarrow> Condition list \<Rightarrow> error + pipeline"
  and applyOr_branches :: "pipeline \<Rightarrow> Condition list \<Rightarrow> error + pipeline list" where
  "applyWhere stream (Simple op selector rhs) = applySimpleCondition stream op selector rhs"
| "applyWhere stream (Conjunction OpAND conditions) = applyAnd stream conditions"
| "applyWhere stream (Conjunction OpOR conditions) =
    (case applyOr_branches stream conditions of
       Inl e \<Rightarrow> Inl e
     | Inr branches \<Rightarrow> Inr (Distinct (Concat branches)))"
| "applyAnd stream [] = Inr stream"
| "applyAnd stream (condition # conditions) =
    (case applyWhere stream condition of
       Inl e \<Rightarrow> Inl e
     | Inr stream' \<Rightarrow> applyAnd stream' conditions)"
| "applyOr_branches stream [] = Inr []"
| "applyOr_branches stream (c # conditions) =
    (case applyWhere stream c of
       Inl e \<Rightarrow> Inl e
     | Inr branch \<Rightarrow>
         (case applyOr_branches stream conditions of
            Inl e \<Rightarrow> Inl e
          | Inr branches \<Rightarrow> Inr (branch # branches)))"

definition applyGroupBy :: "pipeline \<Rightarrow> string list \<Rightarrow> Aggregation list \<Rightarrow> pipeline" where
  "applyGroupBy stream columns aggregations = Reduce stream columns aggregations"

definition aggregate_name :: "Aggregate \<Rightarrow> string" where
  "aggregate_name a = (case a of Agg_sum \<Rightarrow> ''sum'' | Agg_avg \<Rightarrow> ''avg'' | Agg_min \<Rightarrow> ''min''
     | Agg_max \<Rightarrow> ''max'' | Agg_array \<Rightarrow> ''array'' | Agg_count \<Rightarrow> ''count'')"

fun applyFullTableAggregation :: "pipeline \<Rightarrow> Aggregation list \<Rightarrow> error + pipeline" where
  "applyFullTableAggregation ret [] = Inr ret"
| "applyFullTableAggregation ret (agg # aggregations) =
    (case agg_aggregate agg of
       Agg_array \<Rightarrow> Inl (Error (aggregate_name (agg_aggregate agg) @ '' not yet supported outside of group-by''))
     | Agg_min \<Rightarrow> Inl (Error (aggregate_name (agg_aggregate agg) @ '' not yet supported outside of group-by''))
     | Agg_max \<Rightarrow> Inl (Error (aggregate_name (agg_aggregate agg) @ '' not yet supported outside of group-by''))
     | Agg_avg \<Rightarrow> applyFullTableAggregation (Average ret (agg_field agg) (agg_alias agg)) aggregations
     | Agg_count \<Rightarrow> applyFullTableAggregation (Count ret (agg_alias agg)) aggregations
     | Agg_sum \<Rightarrow> applyFullTableAggregation (Sum ret (agg_field agg) (agg_alias agg)) aggregations)"

text \<open>\<open>buildPipeline\<close>. The table of an \<open>AST\<close> is a string, so \<^verbatim>\<open>must(ast.table, ...)\<close> does
  not throw; \<^verbatim>\<open>ast.aggregate ?? []\<close> is the empty list when there are no aggregations.
  An empty \<open>groupBy\<close> or \<open>aggregate\<close> array is truthy in JavaScript, hence present.\<close>

definition buildPipeline :: "(string \<Rightarrow> pipeline) \<Rightarrow> AST \<Rightarrow> error + pipeline" where
  "buildPipeline sourceStreamProvider ast =
    (case (case ast_where ast of
             None \<Rightarrow> Inr (sourceStreamProvider (ast_table ast))
           | Some w \<Rightarrow> applyWhere (sourceStreamProvider (ast_table ast)) w) of
       Inl e \<Rightarrow> Inl e
     | Inr stream \<Rightarrow>
         (case ast_groupBy ast of
            Some columns \<Rightarrow>
              Inr (applyGroupBy stream columns
                     (case ast_aggregate ast of None \<Rightarrow> [] | Some aggs \<Rightarrow> aggs))
          | None \<Rightarrow>
              (case ast_aggregate ast of
                 Some aggs \<Rightarrow> applyFullTableAggregation stream aggs
               | None \<Rightarrow> Inr stream)))"

section \<open>Notions used to state the properties of LIKE\<close>

text \<open>The reading of a LIKE pattern that the specification describes: \<^verbatim>\<open>%\<close> stands for any
  string, \<^verbatim>\<open>_\<close> for any one character, a backslash makes the next character literal,
  and every other character is literal. A pattern whose last character is a backslash
  that escapes nothing has no reading.\<close>

datatype like_token = AnyString | AnyOne | Literal char

fun like_tokens :: "string \<Rightarrow> like_token list option" where
  "like_tokens [] = Some []"
| "like_tokens (c # rest) =
    (if c = CHR ''%'' then map_option (Cons AnyString) (like_tokens rest)
     else if c = CHR ''_'' then map_option (Cons AnyOne) (like_tokens rest)
     else if c = CHR 0x5C then
       (case rest of
          [] \<Rightarrow> None
        | e # rest' \<Rightarrow> map_option (Cons (Literal e)) (like_tokens rest'))
     else map_option (Cons (Literal c)) (like_tokens rest))"

text \<open>A pattern ends with a dangling escape when the run of backslashes at its end has
  odd length: the backslashes pair up from the left, and the last one is left over.\<close>

definition ends_with_dangling_escape :: "string \<Rightarrow> bool" where
  "ends_with_dangling_escape s = odd (length (takeWhile (\<lambda>c. c = CHR 0x5C) (rev s)))"

text \<open>The regular-expression text and the atom of one token.\<close>

definition token_regexp :: "like_token \<Rightarrow> string" where
  "token_regexp t = (case t of AnyString \<Rightarrow> ''.*'' | AnyOne \<Rightarrow> ''.''
     | Literal c \<Rightarrow> (if specialCharsRe_test c then [CHR 0x5C] else []) @ [c])"

definition token_atom :: "like_token \<Rightarrow> re_atom \<times> bool" where
  "token_atom t = (case t of AnyString \<Rightarrow> (Dot, True) | AnyOne \<Rightarrow> (Dot, False)
     | Literal c \<Rightarrow> (Lit c, False))"

section \<open>Notions used to state the properties of the pipeline builder\<close>

text \<open>The simple conditions of a condition tree, in the order in which \<open>applyWhere\<close>
  reaches them, and whether the operator of each of them compiles.\<close>

fun simple_conditions :: "Condition \<Rightarrow> (SimpleOperator \<times> string \<times> primitive) list" where
  "simple_conditions (Simple op selector rhs) = [(op, selector, rhs)]"
| "simple_conditions (Conjunction cop conditions) = concat (map simple_conditions conditions)"

definition where_compiles :: "Condition \<Rightarrow> bool" where
  "where_compiles w = list_all (\<lambda>(op, selector, rhs). \<not> isl (getOperator op rhs)) (simple_conditions w)"

definition is_like_operator :: "SimpleOperator \<Rightarrow> bool" where
  "is_like_operator op = (op = LIKE \<or> op = NOT_LIKE \<or> op = ILIKE \<or> op = NOT_ILIKE)"



text \<open>An AST of the examples: a table \<^verbatim>\<open>t\<close> with the given aggregations, where clause and
  group-by columns.\<close>

definition ex_ast :: "Aggregation list option \<Rightarrow> Condition option \<Rightarrow> string list option \<Rightarrow> AST" where
  "ex_ast aggs w g = \<lparr>ast_table = ''t'', ast_alias = None, ast_select = None,
     ast_aggregate = aggs, ast_where = w, ast_limit = None, ast_groupBy = g,
     ast_orderBy = ([''id''], asc)\<rparr>"

text \<open>Matching a string against the tokens of a LIKE pattern, as the specification
  describes it: \<open>AnyString\<close> matches any number of characters, \<open>AnyOne\<close> exactly one, a
  literal matches itself, up to case for ILIKE.\<close>

definition same_char :: "bool \<Rightarrow> char \<Rightarrow> char \<Rightarrow> bool" where
  "same_char ignoreCase l c =
    (if ignoreCase then toLowerCase_char l = toLowerCase_char c else l = c)"

fun like_matches :: "bool \<Rightarrow> like_token list \<Rightarrow> string \<Rightarrow> bool" where
  "like_matches ic [] s = (s = [])"
| "like_matches ic (AnyString # ts) [] = like_matches ic ts []"
| "like_matches ic (AnyString # ts) (c # cs) =
     (like_matches ic ts (c # cs) \<or> like_matches ic (AnyString # ts) cs)"
| "like_matches ic (AnyOne # ts) [] = False"
| "like_matches ic (AnyOne # ts) (c # cs) = like_matches ic ts cs"
| "like_matches ic (Literal l # ts) [] = False"
| "like_matches ic (Literal l # ts) (c # cs) = (same_char ic l c \<and> like_matches ic ts cs)"

section \<open>Group-by and its reducer (\<^verbatim>\<open>ast-to-ivm/pipeline-builder.ts\<close>)\<close>

text \<open>An entity is a row. \<open>getValueFromEntity\<close> reads the column of a qualified column;
  entities that are join results (\<^verbatim>\<open>isJoinResult\<close>, of a file that is not among the
  sources) are not modelled.\<close>

definition selectorsToQualifiedColumns :: "string list \<Rightarrow> (string option \<times> string) list" where
  "selectorsToQualifiedColumns selectors =
    map (\<lambda>x. if CHR ''.'' \<in> set x
              then (Some (split_on (CHR ''.'') x ! 0), split_on (CHR ''.'') x ! 1)
              else (None, x)) selectors"

definition getValueFromEntity :: "row \<Rightarrow> string option \<times> string \<Rightarrow> primitive option" where
  "getValueFromEntity entity qualifiedColumn = row_get entity (snd qualifiedColumn)"

text \<open>The key function: the JSON text of the array of the group columns' values.
  \<^verbatim>\<open>JSON.stringify\<close> writes an \<^verbatim>\<open>undefined\<close> array element as \<^verbatim>\<open>null\<close>.\<close>

definition makeKeyFunction :: "string list \<Rightarrow> row \<Rightarrow> string" where
  "makeKeyFunction selectors x =
    JSON_stringify_array
      (map (\<lambda>qualifiedColumn. normalizeUndefined (getValueFromEntity x qualifiedColumn))
         (selectorsToQualifiedColumns selectors))"

text \<open>The addition \<^verbatim>\<open>sum += v\<close> of JavaScript on the modelled values: with a string
  operand it concatenates the string forms, otherwise it adds the numbers that
  \<^verbatim>\<open>ToNumber\<close> gives (\<^verbatim>\<open>null\<close> and \<^verbatim>\<open>false\<close> are 0, \<^verbatim>\<open>true\<close> is 1, \<^verbatim>\<open>undefined\<close> is NaN).
  \<open>ToNumber_nonstring\<close> is applied to values that are not strings only; its value on a
  string is never used. The sum of two finite numbers is exact, as it is in JavaScript
  while the operands and the sum are safe integers.\<close>

fun number_add :: "number \<Rightarrow> number \<Rightarrow> number" where
  "number_add (Finite a) (Finite b) = Finite (a + b)"
| "number_add NaN y = NaN"
| "number_add x NaN = NaN"
| "number_add PosInfinity NegInfinity = NaN"
| "number_add NegInfinity PosInfinity = NaN"
| "number_add PosInfinity y = PosInfinity"
| "number_add NegInfinity y = NegInfinity"
| "number_add x PosInfinity = PosInfinity"
| "number_add x NegInfinity = NegInfinity"

definition ToNumber_nonstring :: "primitive option \<Rightarrow> number" where
  "ToNumber_nonstring v = (case v of None \<Rightarrow> NaN | Some PNull \<Rightarrow> Finite 0
     | Some (PBool b) \<Rightarrow> Finite (if b then 1 else 0) | Some (PNumber n) \<Rightarrow> n
     | Some (PString s) \<Rightarrow> NaN)"

definition ToString :: "primitive option \<Rightarrow> string" where
  "ToString v = (case v of None \<Rightarrow> ''undefined'' | Some p \<Rightarrow> String_of p)"

definition is_string :: "primitive option \<Rightarrow> bool" where
  "is_string v = (case v of Some (PString s) \<Rightarrow> True | _ \<Rightarrow> False)"

definition js_add :: "primitive \<Rightarrow> primitive option \<Rightarrow> primitive" where
  "js_add a b =
    (if is_string (Some a) \<or> is_string b then PString (ToString (Some a) @ ToString b)
     else PNumber (number_add (ToNumber_nonstring (Some a)) (ToNumber_nonstring b)))"

text \<open>A property of a group row: a value (possibly \<^verbatim>\<open>undefined\<close>) or, for the
  \<open>array\<close> aggregate, an array of values.\<close>

datatype cell = Value "primitive option" | ArrayValue "primitive option list"

type_synonym group_row = "(string \<times> cell) list"

text \<open>The JavaScript operators \<^verbatim>\<open>/\<close>, \<^verbatim>\<open>>\<close> and \<^verbatim>\<open><\<close> that the \<open>avg\<close>, \<open>min\<close> and \<open>max\<close>
  aggregates apply are parameters of the reducer.\<close>

record js_operators =
  js_divide :: "primitive \<Rightarrow> primitive \<Rightarrow> primitive"
  js_greater :: "primitive option \<Rightarrow> primitive option \<Rightarrow> bool"
  js_less :: "primitive option \<Rightarrow> primitive option \<Rightarrow> bool"

text \<open>\<^verbatim>\<open>value[aggregation.field]\<close>: a missing field reads the property named \<^verbatim>\<open>undefined\<close>.\<close>

definition field_of :: "Aggregation \<Rightarrow> row \<Rightarrow> primitive option" where
  "field_of aggregation v =
    row_get v (case agg_field aggregation of None \<Rightarrow> ''undefined'' | Some f \<Rightarrow> f)"

definition aggregate_cell :: "js_operators \<Rightarrow> Aggregation \<Rightarrow> row list \<Rightarrow> cell" where
  "aggregate_cell ops aggregation vals =
    (case agg_aggregate aggregation of
       Agg_count \<Rightarrow> Value (Some (PNumber (Finite (foldl (\<lambda>count v. count + 1) 0 vals))))
     | Agg_sum \<Rightarrow>
         Value (Some (foldl (\<lambda>sum v. js_add sum (field_of aggregation v)) (PNumber (Finite 0)) vals))
     | Agg_avg \<Rightarrow>
         Value (Some (js_divide ops
           (foldl (\<lambda>sum v. js_add sum (field_of aggregation v)) (PNumber (Finite 0)) vals)
           (PNumber (Finite (foldl (\<lambda>count v. count + 1) 0 vals)))))
     | Agg_min \<Rightarrow>
         Value (foldl (\<lambda>m v. if m = None \<or> js_greater ops m (field_of aggregation v)
                              then field_of aggregation v else m) None vals)
     | Agg_max \<Rightarrow>
         Value (foldl (\<lambda>m v. if m = None \<or> js_less ops m (field_of aggregation v)
                              then field_of aggregation v else m) None vals)
     | Agg_array \<Rightarrow> ArrayValue (map (field_of aggregation) vals))"

text \<open>The reducer that \<open>applyGroupBy\<close> passes to \<^verbatim>\<open>stream.reduce\<close>: a copy of the first
  value of the group, with one property set per aggregation, in order.\<close>

definition group_reducer :: "js_operators \<Rightarrow> Aggregation list \<Rightarrow> row list \<Rightarrow> group_row" where
  "group_reducer ops aggregations vals =
    foldl (\<lambda>ret aggregation.
             object_set ret (agg_alias aggregation) (aggregate_cell ops aggregation vals))
      (case vals of [] \<Rightarrow> [] | first # rest \<Rightarrow> map (\<lambda>(k, v). (k, Value (Some v))) first)
      aggregations"

text \<open>Modelled from the spec: \<^verbatim>\<open>DifferenceStream.reduce\<close> is not among the sources. Per
  the specification (GroupBy + Aggregate) the operator is given a key function, an
  identity function and a reducer; it keeps, per group key, the members of the group
  keyed by the identity of the value, and the row of a non-empty group is the reducer
  applied to its members; a group that empties is removed. The state lists the groups in
  the order in which they appeared and the members in the order in which they were
  added.\<close>

type_synonym reduce_state = "(string \<times> (primitive option \<times> row) list) list"

definition member_add ::
  "(primitive option \<times> row) list \<Rightarrow> primitive option \<Rightarrow> row \<Rightarrow> (primitive option \<times> row) list" where
  "member_add ms i r = (if i \<in> fst ` set ms then map (\<lambda>(j, x). if j = i then (j, r) else (j, x)) ms
                        else ms @ [(i, r)])"

fun reduce_add ::
  "(row \<Rightarrow> string) \<Rightarrow> (row \<Rightarrow> primitive option) \<Rightarrow> reduce_state \<Rightarrow> row \<Rightarrow> reduce_state" where
  "reduce_add keyFunction idFunction [] r = [(keyFunction r, [(idFunction r, r)])]"
| "reduce_add keyFunction idFunction ((k, ms) # groups) r =
    (if k = keyFunction r then (k, member_add ms (idFunction r) r) # groups
     else (k, ms) # reduce_add keyFunction idFunction groups r)"

definition reduce_remove ::
  "(row \<Rightarrow> string) \<Rightarrow> (row \<Rightarrow> primitive option) \<Rightarrow> reduce_state \<Rightarrow> row \<Rightarrow> reduce_state" where
  "reduce_remove keyFunction idFunction st r =
    filter (\<lambda>(k, ms). ms \<noteq> [])
      (map (\<lambda>(k, ms). if k = keyFunction r
                        then (k, filter (\<lambda>(j, x). j \<noteq> idFunction r) ms) else (k, ms)) st)"

definition reduce_rows :: "(row list \<Rightarrow> group_row) \<Rightarrow> reduce_state \<Rightarrow> (string \<times> group_row) list" where
  "reduce_rows reducer st = map (\<lambda>(k, ms). (k, reducer (map snd ms))) st"

text \<open>The rows of the source table reach the pipeline as additions and removals.\<close>

datatype difference = Added row | Removed row

fun reduce_step ::
  "(row \<Rightarrow> string) \<Rightarrow> (row \<Rightarrow> primitive option) \<Rightarrow> reduce_state \<Rightarrow> difference \<Rightarrow> reduce_state" where
  "reduce_step keyFunction idFunction st (Added r) = reduce_add keyFunction idFunction st r"
| "reduce_step keyFunction idFunction st (Removed r) = reduce_remove keyFunction idFunction st r"

text \<open>The group rows that a pipeline holds after the differences \<open>ds\<close> of its source
  table, each with the key of its group. The stage \<open>Reduce stream columns aggregations\<close>
  is the call \<^verbatim>\<open>stream.reduce(keyFunction, value => value.id, values => ...)\<close> of
  \<open>applyGroupBy\<close>: its key function is \<open>makeKeyFunction columns\<close>, its identity function
  reads the column \<^verbatim>\<open>id\<close>, and its reducer is \<open>group_reducer\<close> over the aggregations. The
  stage is given its meaning directly over a source; other pipelines have none here.\<close>

fun pipeline_groups ::
  "js_operators \<Rightarrow> pipeline \<Rightarrow> difference list \<Rightarrow> (string \<times> group_row) list option" where
  "pipeline_groups ops (Reduce (SourceStream table) columns aggregations) ds =
     Some (reduce_rows (group_reducer ops aggregations)
             (foldl (reduce_step (makeKeyFunction columns) (\<lambda>value. row_get value ''id'')) [] ds))"
| "pipeline_groups ops p ds = None"

text \<open>The scenario of the specification: three rows, grouped by \<^verbatim>\<open>g\<close>, with \<open>count\<close> and
  \<open>sum\<close> of \<^verbatim>\<open>v\<close>. Every row carries its identity \<^verbatim>\<open>id\<close>.\<close>

definition ex_row :: "string \<Rightarrow> string \<Rightarrow> int \<Rightarrow> row" where
  "ex_row i g v = [(''id'', PString i), (''g'', PString g), (''v'', PNumber (Finite v))]"

definition ex_aggregations :: "Aggregation list" where
  "ex_aggregations =
    [\<lparr>agg_field = None, agg_alias = ''count'', agg_aggregate = Agg_count\<rparr>,
     \<lparr>agg_field = Some ''v'', agg_alias = ''sum'', agg_aggregate = Agg_sum\<rparr>]"

definition ex_groupBy_ast :: AST where
  "ex_groupBy_ast = \<lparr>ast_table = ''t'', ast_alias = None, ast_select = None,
     ast_aggregate = Some ex_aggregations, ast_where = None, ast_limit = None,
     ast_groupBy = Some [''g''], ast_orderBy = ([''id''], asc)\<rparr>"

definition ex_differences :: "difference list" where
  "ex_differences =
    [Added (ex_row ''1'' ''a'' 1), Added (ex_row ''2'' ''a'' 2), Added (ex_row ''3'' ''b'' 5)]"

section \<open>AST normalization (\<^verbatim>\<open>ast/ast.ts\<close>)\<close>

text \<open>\<^verbatim>\<open>compareUTF8\<close> of the package \<^verbatim>\<open>compare-utf8\<close>: the order of the strings by code
  point, as a number that is negative, zero or positive. Every use in the source looks
  at the sign only (or at whether the result is zero).\<close>

fun compareUTF8 :: "string \<Rightarrow> string \<Rightarrow> int" where
  "compareUTF8 [] [] = 0"
| "compareUTF8 [] (b # bs) = - 1"
| "compareUTF8 (a # as) [] = 1"
| "compareUTF8 (a # as) (b # bs) =
    (if a = b then compareUTF8 as bs else int (of_char a) - int (of_char b))"

text \<open>\<^verbatim>\<open>x || y\<close> on numbers: \<open>y\<close> when \<open>x\<close> is zero.\<close>

definition or_else :: "int \<Rightarrow> int \<Rightarrow> int" where
  "or_else x y = (if x \<noteq> 0 then x else y)"

text \<open>\<^verbatim>\<open>Array.prototype.sort(compareFn)\<close> on a copy of the array. The sort of ECMAScript
  is stable and, for a consistent comparison function, yields the elements in
  non-decreasing order; that determines the result, which is the one of a stable
  insertion sort.\<close>

fun insert_by :: "('a \<Rightarrow> 'a \<Rightarrow> int) \<Rightarrow> 'a \<Rightarrow> 'a list \<Rightarrow> 'a list" where
  "insert_by compareFn x [] = [x]"
| "insert_by compareFn x (y # ys) =
    (if compareFn x y \<le> 0 then x # y # ys else y # insert_by compareFn x ys)"

definition Array_sort :: "('a \<Rightarrow> 'a \<Rightarrow> int) \<Rightarrow> 'a list \<Rightarrow> 'a list" where
  "Array_sort compareFn xs = foldr (insert_by compareFn) xs []"

text \<open>\<^verbatim>\<open>defined\<close> of \<^verbatim>\<open>shared/src/arrays.ts\<close>: the elements that are not \<^verbatim>\<open>undefined\<close>.\<close>

fun defined :: "'a option list \<Rightarrow> 'a list" where
  "defined [] = []"
| "defined (None # xs) = defined xs"
| "defined (Some x # xs) = x # defined xs"

text \<open>\<open>flattened\<close> on a condition that is not \<^verbatim>\<open>undefined\<close>. \<open>flattened_children op cs\<close> is
  the \<^verbatim>\<open>flatMap\<close> over the conditions \<open>cs\<close> of a conjunction with operator \<open>op\<close>: a child
  conjunction with the same operator contributes \<^verbatim>\<open>c.conditions.map(c => flattened(c))\<close>
  (\<open>flattened_each\<close>), every other child contributes \<^verbatim>\<open>flattened(c)\<close>. The operator of a
  simple condition is never that of a conjunction.\<close>

fun flattened :: "Condition \<Rightarrow> Condition option"
  and flattened_children :: "ConjunctionOp \<Rightarrow> Condition list \<Rightarrow> Condition option list"
  and flattened_each :: "Condition list \<Rightarrow> Condition option list" where
  "flattened (Simple op field v) = Some (Simple op field v)"
| "flattened (Conjunction op conds) =
    (case defined (flattened_children op conds) of
       [] \<Rightarrow> None
     | [c] \<Rightarrow> Some c
     | c # c' # cs \<Rightarrow> Some (Conjunction op (c # c' # cs)))"
| "flattened_children op [] = []"
| "flattened_children op (Simple sop field v # rest) =
    flattened (Simple sop field v) # flattened_children op rest"
| "flattened_children op (Conjunction op' conds # rest) =
    (if op' = op then flattened_each conds else [flattened (Conjunction op' conds)])
    @ flattened_children op rest"
| "flattened_each [] = []"
| "flattened_each (c # cs) = flattened c # flattened_each cs"

definition flattened_opt :: "Condition option \<Rightarrow> Condition option" where
  "flattened_opt cond = (case cond of None \<Rightarrow> None | Some c \<Rightarrow> flattened c)"

definition operator_name :: "SimpleOperator \<Rightarrow> string" where
  "operator_name op =
    (case op of OpEq \<Rightarrow> ''='' | OpNe \<Rightarrow> ''!='' | OpLt \<Rightarrow> ''<'' | OpGt \<Rightarrow> ''>''
     | OpLe \<Rightarrow> ''<='' | OpGe \<Rightarrow> ''>='' | OpIN \<Rightarrow> ''IN'' | OpNOT_IN \<Rightarrow> ''NOT IN''
     | LIKE \<Rightarrow> ''LIKE'' | NOT_LIKE \<Rightarrow> ''NOT LIKE'' | ILIKE \<Rightarrow> ''ILIKE''
     | NOT_ILIKE \<Rightarrow> ''NOT ILIKE'')"

definition conjunction_name :: "ConjunctionOp \<Rightarrow> string" where
  "conjunction_name op = (case op of OpAND \<Rightarrow> ''AND'' | OpOR \<Rightarrow> ''OR'')"

text \<open>\<open>cmp\<close>; \<open>cmp_conditions\<close> is its loop over the two lists of conditions, followed by
  the difference of the lengths.\<close>

fun cmp :: "Condition \<Rightarrow> Condition \<Rightarrow> int"
  and cmp_conditions :: "Condition list \<Rightarrow> Condition list \<Rightarrow> int" where
  "cmp (Simple op1 field1 v1) (Conjunction op2 conds2) = - 1"
| "cmp (Simple op1 field1 v1) (Simple op2 field2 v2) =
    or_else (compareUTF8 field1 field2)
      (or_else (compareUTF8 (operator_name op1) (operator_name op2))
         (compareUTF8 (String_of v1) (String_of v2)))"
| "cmp (Conjunction op1 conds1) (Simple op2 field2 v2) = 1"
| "cmp (Conjunction op1 conds1) (Conjunction op2 conds2) =
    (if compareUTF8 (conjunction_name op1) (conjunction_name op2) \<noteq> 0
     then compareUTF8 (conjunction_name op1) (conjunction_name op2)
     else cmp_conditions conds1 conds2)"
| "cmp_conditions (a # as) (b # bs) =
    (if cmp a b \<noteq> 0 then cmp a b else cmp_conditions as bs)"
| "cmp_conditions [] bs = int (length ([] :: Condition list)) - int (length bs)"
| "cmp_conditions (a # as) [] = int (length (a # as)) - int (length ([] :: Condition list))"

text \<open>\<open>sorted\<close> of the source.\<close>

fun sorted_condition :: "Condition \<Rightarrow> Condition" where
  "sorted_condition (Simple op field v) = Simple op field v"
| "sorted_condition (Conjunction op conds) =
    Conjunction op (Array_sort cmp (map sorted_condition conds))"

definition normalizeAST :: "AST \<Rightarrow> AST" where
  "normalizeAST ast =
    \<lparr>ast_table = ast_table ast,
     ast_alias = ast_alias ast,
     ast_select = map_option (Array_sort (\<lambda>(a, x) (b, y). compareUTF8 a b)) (ast_select ast),
     ast_aggregate = map_option
       (Array_sort (\<lambda>a b. or_else
          (compareUTF8 (aggregate_name (agg_aggregate a)) (aggregate_name (agg_aggregate b)))
          (compareUTF8 (case agg_field a of None \<Rightarrow> ''*'' | Some f \<Rightarrow> f)
                       (case agg_field b of None \<Rightarrow> ''*'' | Some f \<Rightarrow> f))))
       (ast_aggregate ast),
     ast_where = map_option sorted_condition (flattened_opt (ast_where ast)),
     ast_limit = ast_limit ast,
     ast_groupBy = map_option (Array_sort compareUTF8) (ast_groupBy ast),
     ast_orderBy = ast_orderBy ast\<rparr>"

section \<open>Notions used to state the properties of the normalization\<close>

text \<open>A key for \<open>cmp\<close>: a condition is written as a list of tokens such that \<open>cmp\<close>
  compares two conditions as the lexicographic order compares their token lists. A
  simple condition is one token with the three strings that \<open>cmp\<close> compares; a
  conjunction is a token for its operator, the tokens of its conditions and an end
  token that is smaller than every other token (so that a prefix comes first).\<close>

type_synonym token = "nat \<times> string \<times> string \<times> string"

fun cmp_key :: "Condition \<Rightarrow> token list" where
  "cmp_key (Simple op field v) = [(1, field, operator_name op, String_of v)]"
| "cmp_key (Conjunction op conds) =
    ((case op of OpAND \<Rightarrow> 2 | OpOR \<Rightarrow> 3), [], [], [])
      # concat (map cmp_key conds) @ [(0, [], [], [])]"

text \<open>What \<open>cmp\<close> compares of a simple condition: its field, its operator and the string
  form of its literal value.\<close>

definition compared_part :: "SimpleOperator \<times> string \<times> primitive \<Rightarrow> string \<times> string \<times> string" where
  "compared_part c = (case c of (op, field, v) \<Rightarrow> (field, operator_name op, String_of v))"

text \<open>A condition tree up to the order of the conditions of each conjunction: two
  trees differ only in that order exactly when they have the same unordered tree.\<close>

datatype unordered_condition =
    USimple SimpleOperator string primitive
  | UConjunction ConjunctionOp "unordered_condition multiset"

fun unordered :: "Condition \<Rightarrow> unordered_condition" where
  "unordered (Simple op field v) = USimple op field v"
| "unordered (Conjunction op conds) = UConjunction op (mset (map unordered conds))"

text \<open>A conjunction is fully flattened when it has at least two conditions, none of
  them a conjunction with the same operator, and its conditions are fully flattened.\<close>

fun fully_flattened :: "Condition \<Rightarrow> bool" where
  "fully_flattened (Simple op field v) = True"
| "fully_flattened (Conjunction op conds) =
    (2 \<le> length conds \<and>
     (\<forall>c \<in> set conds. (case c of Conjunction op' cs \<Rightarrow> op' \<noteq> op | _ \<Rightarrow> True)
         \<and> fully_flattened c))"

text \<open>Every conjunction of the tree has at least two conditions.\<close>

fun at_least_two :: "Condition \<Rightarrow> bool" where
  "at_least_two (Simple op field v) = True"
| "at_least_two (Conjunction op conds) = (2 \<le> length conds \<and> (\<forall>c \<in> set conds. at_least_two c))"

text \<open>The where clauses of the examples: simple conditions \<^verbatim>\<open>field = n\<close>, and the
  conjunction \<^verbatim>\<open>a = 1 AND (b = 2 AND (c = 3 AND d = 4))\<close>.\<close>

definition ex_eq :: "string \<Rightarrow> int \<Rightarrow> Condition" where
  "ex_eq field n = Simple OpEq field (PNumber (Finite n))"

definition ex_nested :: Condition where
  "ex_nested = Conjunction OpAND [ex_eq ''a'' 1,
     Conjunction OpAND [ex_eq ''b'' 2, Conjunction OpAND [ex_eq ''c'' 3, ex_eq ''d'' 4]]]"

text \<open>Two ASTs differ only in the order of their \<open>groupBy\<close> lists, of their \<open>select\<close>
  lists and of the conditions of the conjunctions of their where clauses. For the sort
  to tell the entries apart, the selectors of the \<open>select\<close> list are pairwise distinct and
  two simple conditions of the where clause that agree on what \<open>cmp\<close> compares are the
  same condition; the literal values are safe values.\<close>

definition differ_in_order_only :: "AST \<Rightarrow> AST \<Rightarrow> bool" where
  "differ_in_order_only A B =
    (ast_table A = ast_table B \<and> ast_alias A = ast_alias B
     \<and> ast_aggregate A = ast_aggregate B \<and> ast_limit A = ast_limit B
     \<and> ast_orderBy A = ast_orderBy B
     \<and> rel_option (\<lambda>g h. mset g = mset h) (ast_groupBy A) (ast_groupBy B)
     \<and> rel_option (\<lambda>s t. mset s = mset t \<and> distinct (map fst s)) (ast_select A) (ast_select B)
     \<and> rel_option (\<lambda>v w. unordered v = unordered w
             \<and> inj_on compared_part (set (simple_conditions v))
             \<and> list_all (\<lambda>(op, field, x). safe_value x) (simple_conditions v))
           (ast_where A) (ast_where B))"

text \<open>Two ASTs that differ only in these orders.\<close>

definition ex_order_a :: AST where
  "ex_order_a = \<lparr>ast_table = ''t'', ast_alias = None,
     ast_select = Some [(''b'', ''y''), (''a'', ''x'')], ast_aggregate = None,
     ast_where = Some (Conjunction OpAND [ex_eq ''b'' 2,
        Conjunction OpOR [ex_eq ''d'' 4, ex_eq ''c'' 3], ex_eq ''a'' 1]),
     ast_limit = None, ast_groupBy = Some [''y'', ''x''], ast_orderBy = ([''id''], asc)\<rparr>"

definition ex_order_b :: AST where
  "ex_order_b = \<lparr>ast_table = ''t'', ast_alias = None,
     ast_select = Some [(''a'', ''x''), (''b'', ''y'')], ast_aggregate = None,
     ast_where = Some (Conjunction OpAND [Conjunction OpOR [ex_eq ''c'' 3, ex_eq ''d'' 4],
        ex_eq ''a'' 1, ex_eq ''b'' 2]),
     ast_limit = None, ast_groupBy = Some [''x'', ''y''], ast_orderBy = ([''id''], asc)\<rparr>"

section \<open>Properties of the JSON encoding\<close>

lemma join_commas_alt: "join_commas (x # xs) = x @ concat (map (\<lambda>y. '','' @ y) xs)"
  by (induction xs arbitrary: x) auto

lemma key_form: "createPrimaryKeySetStorageKey vals =
   QuoteJSONString ''pKeySet'' @ concat (map (\<lambda>v. '','' @ JSON_stringify v) vals) @ '',''"
  unfolding createPrimaryKeySetStorageKey_def JSON_stringify_array_def Let_def substring_def
  apply (simp add: join_commas_alt del: join_commas.simps)
  apply (simp add: QuoteJSONString_def map_concat comp_def)
  done

lemma nth_distinct_inj:
  "distinct xs \<Longrightarrow> a < length xs \<Longrightarrow> b < length xs \<Longrightarrow> xs ! a = xs ! b \<Longrightarrow> a = b"
  by (simp add: nth_eq_iff_index_eq)

lemma hex_char_inj: "a < 16 \<Longrightarrow> b < 16 \<Longrightarrow> hex_char a = hex_char b \<Longrightarrow> a = b"
  unfolding hex_char_def by (rule nth_distinct_inj[of "''0123456789abcdef''"]) simp_all

lemma digit_char_inj: "a < 10 \<Longrightarrow> b < 10 \<Longrightarrow> digit_char a = digit_char b \<Longrightarrow> a = b"
  unfolding digit_char_def by (rule nth_distinct_inj[of "''0123456789''"]) simp_all

lemma digit_char_in: "d < 10 \<Longrightarrow> digit_char d \<in> set ''0123456789''"
  unfolding digit_char_def by (rule nth_mem) simp

lemma digits_small: "n < 10 \<Longrightarrow> digits n = [digit_char n]"
  by (subst digits.simps) simp

lemma digits_large: "\<not> n < 10 \<Longrightarrow> digits n = digits (n div 10) @ [digit_char (n mod 10)]"
  by (subst digits.simps) simp

lemma digits_nonempty: "digits n \<noteq> []"
  by (cases "n < 10") (simp_all add: digits_small digits_large)

lemma digits_set: "set (digits n) \<subseteq> set ''0123456789''"
proof (induction n rule: digits.induct)
  case (1 n)
  show ?case
  proof (cases "n < 10")
    case True
    then show ?thesis using digit_char_in[of n] by (simp add: digits_small)
  next
    case False
    have "n mod 10 < 10" by simp
    from digit_char_in[OF this] 1[OF False] False show ?thesis
      by (simp add: digits_large)
  qed
qed

lemma digits_inj: "digits n = digits m \<Longrightarrow> n = m"
proof (induction n arbitrary: m rule: digits.induct)
  case (1 n)
  show ?case
  proof (cases "n < 10")
    case True
    note n = this
    show ?thesis
    proof (cases "m < 10")
      case True
      with n 1(2) show ?thesis by (auto simp: digits_small dest: digit_char_inj)
    next
      case False
      with n 1(2) digits_nonempty[of "m div 10"] show ?thesis
        by (auto simp: digits_small digits_large Cons_eq_append_conv)
    qed
  next
    case False
    note n = this
    show ?thesis
    proof (cases "m < 10")
      case True
      with n 1(2) digits_nonempty[of "n div 10"] show ?thesis
        by (auto simp: digits_small digits_large append_eq_Cons_conv)
    next
      case False
      with n 1(2) have a: "digits (n div 10) = digits (m div 10)"
        and b: "digit_char (n mod 10) = digit_char (m mod 10)" by (auto simp: digits_large)
      from 1(1)[OF n a] have "n div 10 = m div 10" .
      moreover from b have "n mod 10 = m mod 10" by (intro digit_char_inj) simp_all
      ultimately show ?thesis by (metis div_mult_mod_eq)
    qed
  qed
qed

lemma QuoteJSONChar_hd: "\<exists>x xs. QuoteJSONChar c = x # xs \<and> x \<noteq> CHR 0x22"
  unfolding QuoteJSONChar_def by auto

lemma QuoteJSONChar_code:
  "QuoteJSONChar c @ r = QuoteJSONChar c' @ r' \<Longrightarrow> c = c' \<and> r = r'"
proof -
  assume e: "QuoteJSONChar c @ r = QuoteJSONChar c' @ r'"
  have u: "(of_char c :: nat) < 32 \<Longrightarrow> (of_char c' :: nat) < 32 \<Longrightarrow>
      hex_char (of_char c div 16) = hex_char (of_char c' div 16) \<Longrightarrow>
      hex_char (of_char c mod 16) = hex_char (of_char c' mod 16) \<Longrightarrow> c = c'"
  proof -
    assume a: "(of_char c :: nat) < 32" "(of_char c' :: nat) < 32"
      and h: "hex_char (of_char c div 16) = hex_char (of_char c' div 16)"
        "hex_char (of_char c mod 16) = hex_char (of_char c' mod 16)"
    from a have "(of_char c :: nat) div 16 < 16" "(of_char c' :: nat) div 16 < 16" by auto
    from hex_char_inj[OF this h(1)] have d: "(of_char c :: nat) div 16 = of_char c' div 16" .
    have "(of_char c :: nat) mod 16 < 16" "(of_char c' :: nat) mod 16 < 16" by auto
    from hex_char_inj[OF this h(2)] have m: "(of_char c :: nat) mod 16 = of_char c' mod 16" .
    from d m have "(of_char c :: nat) = of_char c'" by (metis div_mult_mod_eq)
    then show "c = c'" by simp
  qed
  from e u show ?thesis
    unfolding QuoteJSONChar_def by (auto split: if_splits)
qed

lemma QuoteJSON_body_inj:
  "concat (map QuoteJSONChar s) @ CHR 0x22 # x = concat (map QuoteJSONChar t) @ CHR 0x22 # y
   \<Longrightarrow> s = t \<and> x = y"
proof (induction s arbitrary: t)
  case Nil
  then show ?case
  proof (cases t)
    case Nil then show ?thesis using Nil.prems by simp
  next
    case (Cons c cs)
    obtain a as where "QuoteJSONChar c = a # as" "a \<noteq> CHR 0x22" using QuoteJSONChar_hd by blast
    with Cons Nil.prems show ?thesis by simp
  qed
next
  case (Cons c cs)
  show ?case
  proof (cases t)
    case Nil
    obtain a as where "QuoteJSONChar c = a # as" "a \<noteq> CHR 0x22" using QuoteJSONChar_hd by blast
    with Nil Cons.prems show ?thesis by simp
  next
    case (Cons d ds)
    with Cons.prems have "QuoteJSONChar c @ (concat (map QuoteJSONChar cs) @ CHR 0x22 # x)
       = QuoteJSONChar d @ (concat (map QuoteJSONChar ds) @ CHR 0x22 # y)" by simp
    from QuoteJSONChar_code[OF this] Cons.IH[of ds] Cons show ?thesis by simp
  qed
qed

lemma no_sep_split:
  "c \<notin> set a \<Longrightarrow> c \<notin> set b \<Longrightarrow> a @ c # x = b @ c # y \<Longrightarrow> a = b \<and> x = y"
proof (induction a arbitrary: b)
  case Nil
  then show ?case by (cases b) auto
next
  case (Cons h t)
  then show ?case by (cases b) auto
qed

lemma Number_toString_Finite_set:
  "set (Number_toString (Finite i)) \<subseteq> set ''-0123456789''"
proof -
  have s: "set ''0123456789'' \<subseteq> set ''-0123456789''" by simp
  have d: "\<And>n. set (digits n) \<subseteq> set ''-0123456789''"
    using digits_set s by (rule subset_trans)
  have m: "CHR ''-'' \<in> set ''-0123456789''" by simp
  show ?thesis
  proof (cases "i < 0")
    case True
    then have "set (Number_toString (Finite i)) = insert (CHR ''-'') (set (digits (nat (- i))))" by simp
    with d[of "nat (- i)"] m show ?thesis by (simp only: insert_subset)
  next
    case False
    then have "Number_toString (Finite i) = digits (nat i)" by simp
    with d[of "nat i"] show ?thesis by (simp only:)
  qed
qed

lemma Number_toString_Finite_nonempty: "Number_toString (Finite i) \<noteq> []"
  using digits_nonempty by simp

lemma Number_toString_Finite_inj:
  "Number_toString (Finite i) = Number_toString (Finite j) \<Longrightarrow> i = j"
proof -
  assume e: "Number_toString (Finite i) = Number_toString (Finite j)"
  have nd: "\<And>n m. CHR ''-'' # digits n \<noteq> digits m"
  proof
    fix n m assume "CHR ''-'' # digits n = digits m"
    then have "CHR ''-'' \<in> set (digits m)" by (metis list.set_intros(1))
    with digits_set[of m] show False by auto
  qed
  show "i = j"
  proof (cases "i < 0")
    case True
    note i = this
    show ?thesis
    proof (cases "j < 0")
      case True
      with i e have "digits (nat (- i)) = digits (nat (- j))" by simp
      from digits_inj[OF this] i True show ?thesis by simp
    next
      case False
      with i e nd show ?thesis by simp
    qed
  next
    case False
    note i = this
    show ?thesis
    proof (cases "j < 0")
      case True
      with i e nd[of "nat (- j)" "nat i"] show ?thesis by simp
    next
      case False
      with i e have "digits (nat i) = digits (nat j)" by simp
      from digits_inj[OF this] i False show ?thesis by simp
    qed
  qed
qed

lemma JSON_nonstring_set:
  "\<forall>s. v \<noteq> PString s \<Longrightarrow> set (JSON_stringify v) \<subseteq> set ''nultrefas-0123456789''"
proof (cases v)
  case (PNumber n)
  have s: "set ''-0123456789'' \<subseteq> set ''nultrefas-0123456789''" by simp
  show ?thesis
  proof (cases n)
    case (Finite i)
    have "set (Number_toString (Finite i)) \<subseteq> set ''nultrefas-0123456789''"
      using Number_toString_Finite_set s by (rule subset_trans)
    with PNumber Finite show ?thesis by (simp only: JSON_stringify.simps)
  qed (simp_all add: PNumber)
next
  case (PBool b)
  then show ?thesis by (cases b) simp_all
qed simp_all

lemma JSON_nonstring_nonempty: "\<forall>s. v \<noteq> PString s \<Longrightarrow> JSON_stringify v \<noteq> []"
proof (cases v)
  case (PNumber n)
  then show ?thesis using Number_toString_Finite_nonempty by (cases n) (auto simp del: Number_toString.simps)
qed auto

lemma JSON_nonstring_no_char:
  "\<forall>s. v \<noteq> PString s \<Longrightarrow> c \<notin> set ''nultrefas-0123456789'' \<Longrightarrow> c \<notin> set (JSON_stringify v)"
  using JSON_nonstring_set[of v] by blast

lemma Number_toString_Finite_no_char:
  "c \<notin> set ''-0123456789'' \<Longrightarrow> c \<notin> set (Number_toString (Finite i))"
  using Number_toString_Finite_set[of i] by blast

lemma Number_toString_Finite_not_word:
  "Number_toString (Finite i) \<noteq> ''null''" "Number_toString (Finite i) \<noteq> ''true''"
  "Number_toString (Finite i) \<noteq> ''false''"
  "''null'' \<noteq> Number_toString (Finite i)" "''true'' \<noteq> Number_toString (Finite i)"
  "''false'' \<noteq> Number_toString (Finite i)"
proof -
  have l: "CHR ''l'' \<notin> set (Number_toString (Finite i))"
    by (rule Number_toString_Finite_no_char) simp
  have e: "CHR ''e'' \<notin> set (Number_toString (Finite i))"
    by (rule Number_toString_Finite_no_char) simp
  show a: "Number_toString (Finite i) \<noteq> ''null''"
  proof
    assume "Number_toString (Finite i) = ''null''"
    with l show False by (simp only:) simp
  qed
  show b: "Number_toString (Finite i) \<noteq> ''true''"
  proof
    assume "Number_toString (Finite i) = ''true''"
    with e show False by (simp only:) simp
  qed
  show c: "Number_toString (Finite i) \<noteq> ''false''"
  proof
    assume "Number_toString (Finite i) = ''false''"
    with e show False by (simp only:) simp
  qed
  from a show "''null'' \<noteq> Number_toString (Finite i)" by (rule not_sym)
  from b show "''true'' \<noteq> Number_toString (Finite i)" by (rule not_sym)
  from c show "''false'' \<noteq> Number_toString (Finite i)" by (rule not_sym)
qed

lemma QuoteJSONString_inj: "QuoteJSONString s = QuoteJSONString t \<Longrightarrow> s = t"
  unfolding QuoteJSONString_def using QuoteJSON_body_inj[of s "[]" t "[]"] by simp

lemma QuoteJSONString_not_nonstring:
  "\<forall>s. u \<noteq> PString s \<Longrightarrow> QuoteJSONString s \<noteq> JSON_stringify u"
proof
  assume u: "\<forall>s. u \<noteq> PString s" and e: "QuoteJSONString s = JSON_stringify u"
  have "CHR 0x22 \<in> set (QuoteJSONString s)" unfolding QuoteJSONString_def by simp
  moreover have "CHR 0x22 \<notin> set (JSON_stringify u)"
    using u by (rule JSON_nonstring_no_char) simp
  ultimately show False using e by simp
qed

lemma JSON_nonstring_eq:
  assumes "\<forall>s. v \<noteq> PString s" "\<forall>s. w \<noteq> PString s"
    and e: "JSON_stringify v = JSON_stringify w"
  shows "v = w \<or> (json_null_like v \<and> json_null_like w)"
proof (cases v)
  case PNull
  then have "json_null_like v" by (simp add: json_null_like_def)
  moreover have "json_null_like w"
  proof (cases w)
    case (PNumber n)
    with e PNull show ?thesis
      by (cases n) (simp_all add: json_null_like_def Number_toString_Finite_not_word del: Number_toString.simps)
  next
    case (PBool b) with e PNull show ?thesis by (simp split: if_splits)
  next
    case (PString s) with assms show ?thesis by simp
  qed (simp add: json_null_like_def)
  ultimately show ?thesis by simp
next
  case (PBool b)
  show ?thesis
  proof (cases w)
    case (PNumber n)
    with e PBool show ?thesis
      by (cases n) (simp_all add: Number_toString_Finite_not_word del: Number_toString.simps split: if_splits)
  next
    case (PBool c) with e \<open>v = PBool b\<close> show ?thesis by (simp split: if_splits)
  next
    case (PString s) with assms show ?thesis by simp
  next
    case PNull with e PBool show ?thesis by (simp split: if_splits)
  qed
next
  case (PNumber n)
  note v = this
  show ?thesis
  proof (cases n)
    case (Finite i)
    show ?thesis
    proof (cases w)
      case (PNumber m)
      with e v Finite show ?thesis
        by (cases m) (auto simp add: Number_toString_Finite_not_word simp del: Number_toString.simps dest: Number_toString_Finite_inj)
    next
      case (PBool c) with e v Finite show ?thesis
        by (simp add: Number_toString_Finite_not_word del: Number_toString.simps split: if_splits)
    next
      case (PString s) with assms show ?thesis by simp
    next
      case PNull with e v Finite show ?thesis
        by (simp add: Number_toString_Finite_not_word del: Number_toString.simps)
    qed
  next
    case NaN
    with v have e': "JSON_stringify w = ''null''" and nl: "json_null_like v"
      using e by (simp_all add: json_null_like_def)
    have "json_null_like w"
    proof (cases w)
      case (PNumber m)
      with e' show ?thesis
        by (cases m) (simp_all add: json_null_like_def Number_toString_Finite_not_word del: Number_toString.simps)
    next
      case (PBool b) with e' show ?thesis by (simp split: if_splits)
    next
      case (PString s) with assms show ?thesis by simp
    qed (simp add: json_null_like_def)
    with nl show ?thesis by simp
  next
    case PosInfinity
    with v have e': "JSON_stringify w = ''null''" and nl: "json_null_like v"
      using e by (simp_all add: json_null_like_def)
    have "json_null_like w"
    proof (cases w)
      case (PNumber m)
      with e' show ?thesis
        by (cases m) (simp_all add: json_null_like_def Number_toString_Finite_not_word del: Number_toString.simps)
    next
      case (PBool b) with e' show ?thesis by (simp split: if_splits)
    next
      case (PString s) with assms show ?thesis by simp
    qed (simp add: json_null_like_def)
    with nl show ?thesis by simp
  next
    case NegInfinity
    with v have e': "JSON_stringify w = ''null''" and nl: "json_null_like v"
      using e by (simp_all add: json_null_like_def)
    have "json_null_like w"
    proof (cases w)
      case (PNumber m)
      with e' show ?thesis
        by (cases m) (simp_all add: json_null_like_def Number_toString_Finite_not_word del: Number_toString.simps)
    next
      case (PBool b) with e' show ?thesis by (simp split: if_splits)
    next
      case (PString s) with assms show ?thesis by simp
    qed (simp add: json_null_like_def)
    with nl show ?thesis by simp
  qed
next
  case (PString s)
  with assms show ?thesis by simp
qed

lemma JSON_stringify_eq:
  assumes e: "JSON_stringify v = JSON_stringify w"
  shows "v = w \<or> (json_null_like v \<and> json_null_like w)"
proof (cases "\<exists>s. v = PString s")
  case True
  then obtain s where v: "v = PString s" by blast
  show ?thesis
  proof (cases "\<exists>t. w = PString t")
    case True
    then obtain t where w: "w = PString t" by blast
    from e v w QuoteJSONString_inj show ?thesis by simp
  next
    case False
    then have "\<forall>s. w \<noteq> PString s" by blast
    from QuoteJSONString_not_nonstring[OF this, of s] e v show ?thesis by simp
  qed
next
  case False
  then have nv: "\<forall>s. v \<noteq> PString s" by blast
  show ?thesis
  proof (cases "\<exists>t. w = PString t")
    case True
    then obtain t where w: "w = PString t" by blast
    from QuoteJSONString_not_nonstring[OF nv, of t] e w show ?thesis by simp
  next
    case False
    then have "\<forall>s. w \<noteq> PString s" by blast
    from JSON_nonstring_eq[OF nv this e] show ?thesis .
  qed
qed

lemma JSON_stringify_sep:
  "JSON_stringify v @ CHR '','' # x = JSON_stringify w @ CHR '','' # y
   \<Longrightarrow> JSON_stringify v = JSON_stringify w \<and> x = y"
proof -
  assume e: "JSON_stringify v @ CHR '','' # x = JSON_stringify w @ CHR '','' # y"
  have hdq: "\<And>u. \<forall>s. u \<noteq> PString s \<Longrightarrow> \<exists>a as. JSON_stringify u = a # as \<and> a \<noteq> CHR 0x22"
  proof -
    fix u assume u: "\<forall>s. u \<noteq> PString s"
    from JSON_nonstring_nonempty[OF u] obtain a as where a: "JSON_stringify u = a # as"
      by (cases "JSON_stringify u") auto
    note a
    moreover have "CHR 0x22 \<notin> set (JSON_stringify u)"
      using u by (rule JSON_nonstring_no_char) simp
    ultimately have "a \<noteq> CHR 0x22" by auto
    with a show "\<exists>a as. JSON_stringify u = a # as \<and> a \<noteq> CHR 0x22" by blast
  qed
  show ?thesis
  proof (cases "\<exists>s. v = PString s")
    case True
    then obtain s where v: "v = PString s" by blast
    show ?thesis
    proof (cases "\<exists>t. w = PString t")
      case True
      then obtain t where w: "w = PString t" by blast
      from e v w have "concat (map QuoteJSONChar s) @ CHR 0x22 # (CHR '','' # x)
          = concat (map QuoteJSONChar t) @ CHR 0x22 # (CHR '','' # y)"
        by (simp add: QuoteJSONString_def)
      from QuoteJSON_body_inj[OF this] v w show ?thesis by simp
    next
      case False
      then have "\<forall>s. w \<noteq> PString s" by blast
      from hdq[OF this] e v show ?thesis by (auto simp: QuoteJSONString_def)
    qed
  next
    case False
    then have nv: "\<forall>s. v \<noteq> PString s" by blast
    show ?thesis
    proof (cases "\<exists>t. w = PString t")
      case True
      then obtain t where w: "w = PString t" by blast
      from hdq[OF nv] e w show ?thesis by (auto simp: QuoteJSONString_def)
    next
      case False
      then have nw: "\<forall>s. w \<noteq> PString s" by blast
      have "CHR '','' \<notin> set (JSON_stringify v)" "CHR '','' \<notin> set (JSON_stringify w)"
        using nv nw by (simp_all add: JSON_nonstring_no_char)
      from no_sep_split[OF this e] show ?thesis .
    qed
  qed
qed

section \<open>Properties of the storage keys and of the prefix scan\<close>

lemma key_tail_comma:
  "\<exists>r. concat (map (\<lambda>v. '','' @ JSON_stringify v) pk) @ '','' = CHR '','' # r"
  by (cases pk) auto

lemma key_prefix_own:
  "prefix (createPrimaryKeySetStorageKeyPrefix v) (createPrimaryKeySetStorageKey (v # pk))"
proof -
  obtain r where "concat (map (\<lambda>v. '','' @ JSON_stringify v) pk) @ '','' = CHR '','' # r"
    using key_tail_comma by blast
  then show ?thesis
    by (simp add: createPrimaryKeySetStorageKeyPrefix_def key_form)
qed

lemma key_prefix_other:
  assumes p: "prefix (createPrimaryKeySetStorageKeyPrefix v) (createPrimaryKeySetStorageKey (w # pk))"
  shows "v = w \<or> (json_null_like v \<and> json_null_like w)"
proof -
  obtain r where r: "concat (map (\<lambda>v. '','' @ JSON_stringify v) pk) @ '','' = CHR '','' # r"
    using key_tail_comma by blast
  from p obtain z where "createPrimaryKeySetStorageKey (w # pk) = createPrimaryKeySetStorageKeyPrefix v @ z"
    by (auto simp: prefix_def)
  with r have "JSON_stringify w @ CHR '','' # r = JSON_stringify v @ CHR '','' # z"
    by (simp add: createPrimaryKeySetStorageKeyPrefix_def key_form)
  from JSON_stringify_sep[OF this] have "JSON_stringify v = JSON_stringify w" by simp
  then show ?thesis by (rule JSON_stringify_eq)
qed

lemma scan_set: "set (storage_scan st p) = {e \<in> set st. prefix p (fst e)}"
  by (auto simp: storage_scan_def)

lemma scan_keys: "set (map fst (storage_scan st p)) = {k \<in> fst ` set st. prefix p k}"
  by (auto simp: storage_scan_def)

lemma scan_length: "length (storage_scan st p) = length (filter (\<lambda>e. prefix p (fst e)) st)"
  by (simp add: storage_scan_def)


section \<open>Properties of \<open>processParentNode\<close> and of the storage\<close>

lemma second_entry: "(case take 2 xs of a # second # r \<Rightarrow> fetch | _ \<Rightarrow> cleanup)
   = (if 2 \<le> length xs then fetch else cleanup)"
proof (cases xs)
  case Nil then show ?thesis by simp
next
  case (Cons x ys)
  then show ?thesis by (cases ys) simp_all
qed

lemma map_of_object_set: "map_of (object_set ps k v) k = Some v"
  by (induction ps) auto

lemma map_of_object_set_other: "k' \<noteq> k \<Longrightarrow> map_of (object_set ps k v) k' = map_of ps k'"
  by (induction ps) auto

lemma two_entries:
  assumes a: "a \<in> fst ` set st" and b: "b \<in> fst ` set st" and ab: "a \<noteq> b"
    and pa: "prefix p a" and pb: "prefix p b"
  shows "2 \<le> length (storage_scan st p)"
proof -
  from a b obtain ea eb where e: "ea \<in> set st" "fst ea = a" "eb \<in> set st" "fst eb = b" by auto
  with ab have ne: "ea \<noteq> eb" by auto
  from e pa pb have "{ea, eb} \<subseteq> set (filter (\<lambda>e. prefix p (fst e)) st)" by auto
  then have "card {ea, eb} \<le> card (set (filter (\<lambda>e. prefix p (fst e)) st))"
    by (intro card_mono) auto
  also have "\<dots> \<le> length (filter (\<lambda>e. prefix p (fst e)) st)" by (rule card_length)
  finally show ?thesis using ne by (simp add: scan_length)
qed

lemma same_key_short: "distinct (map fst xs) \<Longrightarrow> \<forall>e \<in> set xs. fst e = k \<Longrightarrow> length xs \<le> 1"
proof (cases xs)
  case Nil then show ?thesis by simp
next
  case (Cons x ys)
  assume d: "distinct (map fst xs)" and k: "\<forall>e \<in> set xs. fst e = k"
  show ?thesis
  proof (cases ys)
    case Nil with Cons show ?thesis by simp
  next
    case (Cons y zs)
    with \<open>xs = x # ys\<close> d k show ?thesis by auto
  qed
qed

lemma only_own_entry:
  assumes d: "distinct (map fst st)" and o: "\<forall>k' \<in> fst ` set st. prefix p k' \<longrightarrow> k' = k"
  shows "\<not> 2 \<le> length (storage_scan st p)"
proof -
  have "distinct (map fst (filter (\<lambda>e. prefix p (fst e)) st))" using d by (rule distinct_map_filter)
  moreover have "\<forall>e \<in> set (filter (\<lambda>e. prefix p (fst e)) st). fst e = k" using o by auto
  ultimately have "length (filter (\<lambda>e. prefix p (fst e)) st) \<le> 1" by (rule same_key_short)
  then show ?thesis by (simp add: scan_length)
qed

lemma storage_del_keys: "fst ` set (storage_del st k) = fst ` set st - {k}"
  by (auto simp: storage_del_def)

lemma storage_del_map_of: "k' \<noteq> k \<Longrightarrow> map_of (storage_del st k) k' = map_of st k'"
  unfolding storage_del_def by (induction st) auto

lemma storage_set_map_of: "map_of (storage_set st k v) k' = (if k' = k then Some v else map_of st k')"
  unfolding storage_set_def by (induction st) auto

lemma storage_set_distinct: "distinct (map fst st) \<Longrightarrow> distinct (map fst (storage_set st k v))"
  unfolding storage_set_def by (auto simp: distinct_map_filter)

lemma storage_del_distinct: "distinct (map fst st) \<Longrightarrow> distinct (map fst (storage_del st k))"
  unfolding storage_del_def by (auto simp: distinct_map_filter)

lemma processParentNode_cleanup:
  "processParentNode j st n cleanup =
    (n\<lparr>relationships := object_set (relationships n) (relationshipName j)
         (Pull (if 2 \<le> length (storage_scan st (createPrimaryKeySetStorageKeyPrefix (parentKeyValue_of j n)))
                then fetch else cleanup)
            \<lparr>req_constraint = Some \<lparr>c_key = childKey j, c_value = Some (parentKeyValue_of j n)\<rparr>\<rparr>)\<rparr>,
     storage_del st (storageKey_of j n))"
  by (simp add: processParentNode_def Let_def second_entry parentKeyValue_of_def storageKey_of_def)

lemma processParentNode_fetch:
  "processParentNode j st n fetch =
    (n\<lparr>relationships := object_set (relationships n) (relationshipName j)
         (Pull fetch
            \<lparr>req_constraint = Some \<lparr>c_key = childKey j, c_value = Some (parentKeyValue_of j n)\<rparr>\<rparr>)\<rparr>,
     storage_set st (storageKey_of j n) True)"
  by (simp add: processParentNode_def Let_def parentKeyValue_of_def storageKey_of_def)

lemma child_method_object_set:
  "child_method j (n\<lparr>relationships := object_set (relationships n) (relationshipName j) (Pull m r)\<rparr>) = Some m"
  by (simp add: child_method_def map_of_object_set)


section \<open>Properties of \<open>patternToRegExp\<close> and \<open>getLikeOp\<close>\<close>

lemma token_simps:
  "token_regexp AnyString = ''.*''" "token_regexp AnyOne = ''.''"
  "token_regexp (Literal c) = (if specialCharsRe_test c then [CHR 0x5C] else []) @ [c]"
  "token_atom AnyString = (Dot, True)" "token_atom AnyOne = (Dot, False)"
  "token_atom (Literal c) = (Lit c, False)"
  by (simp_all add: token_regexp_def token_atom_def)

lemma loop_tokens:
  "patternToRegExp_loop acc src =
    (case like_tokens src of
       None \<Rightarrow> Inl (Error ''LIKE pattern must not end with escape character'')
     | Some ts \<Rightarrow> Inr (acc @ concat (map token_regexp ts)))"
proof (induction acc src rule: patternToRegExp_loop.induct)
  case (1 pattern)
  then show ?case by simp
next
  case (2 pattern c rest)
  show ?case
  proof (cases "c = CHR ''%''")
    case True
    with 2(1) show ?thesis by (simp add: token_simps split: option.splits)
  next
    case False
    note np = this
    show ?thesis
    proof (cases "c = CHR ''_''")
      case True
      with np 2(2) show ?thesis by (simp add: token_simps split: option.splits)
    next
      case False
      note nu = this
      show ?thesis
      proof (cases "c = CHR 0x5C")
        case True
        show ?thesis
        proof (cases rest)
          case Nil
          with True show ?thesis by simp
        next
          case (Cons e rest')
          with np nu True 2(3)[OF np nu True Cons] show ?thesis
            by (simp add: token_simps split: option.splits)
        qed
      next
        case False
        with np nu 2(4) show ?thesis by (simp add: token_simps split: option.splits)
      qed
    qed
  qed
qed

lemma take_star_not_star: "s \<noteq> [] \<Longrightarrow> hd s \<noteq> CHR ''*'' \<Longrightarrow> take_star s = (False, s)"
  by (cases s) (auto simp: take_star_def)

lemma take_star_star: "take_star (CHR ''*'' # s) = (True, s)"
  by (simp add: take_star_def)

lemma token_regexp_hd: "token_regexp t \<noteq> [] \<and> hd (token_regexp t) \<noteq> CHR ''*''"
  by (cases t) (auto simp: token_simps specialCharsRe_test_def)

lemma tokens_text_hd:
  "concat (map token_regexp ts) @ ''$'' \<noteq> [] \<and> hd (concat (map token_regexp ts) @ ''$'') \<noteq> CHR ''*''"
proof (cases ts)
  case Nil then show ?thesis by simp
next
  case (Cons t ts')
  with token_regexp_hd[of t] show ?thesis by (cases "token_regexp t") auto
qed

lemma parse_tokens:
  "parse_atoms (concat (map token_regexp ts) @ ''$'') = Some (map token_atom ts)"
proof (induction ts)
  case Nil
  then show ?case by simp
next
  case (Cons t ts)
  let ?r = "concat (map token_regexp ts) @ ''$''"
  have ns: "take_star ?r = (False, ?r)"
    using tokens_text_hd[of ts] by (intro take_star_not_star) auto
  show ?case
  proof (cases t)
    case AnyString
    with Cons show ?thesis by (simp add: token_simps take_star_star specialCharsRe_test_def)
  next
    case AnyOne
    with Cons ns show ?thesis by (simp add: token_simps specialCharsRe_test_def)
  next
    case (Literal c)
    show ?thesis
    proof (cases "specialCharsRe_test c")
      case True
      with Literal Cons ns show ?thesis by (simp add: token_simps)
    next
      case False
      then have "c \<noteq> CHR ''$''" "c \<noteq> CHR 0x5C" "c \<noteq> CHR ''.''"
        by (auto simp: specialCharsRe_test_def)
      with False Literal Cons ns show ?thesis by (simp add: token_simps)
    qed
  qed
qed

lemma patternToRegExp_tokens:
  "patternToRegExp src flags =
    (case like_tokens src of
       None \<Rightarrow> Inl (Error ''LIKE pattern must not end with escape character'')
     | Some ts \<Rightarrow> Inr \<lparr>re_atoms = map token_atom ts, re_ignoreCase = (flags = IgnoreCase)\<rparr>)"
  by (simp add: patternToRegExp_def loop_tokens RegExp_new_def parse_tokens split: option.splits)

lemma patternToRegExp_compiles:
  "patternToRegExp_loop ''^'' src = Inr pattern \<Longrightarrow> RegExp_new (pattern @ ''$'') flags \<noteq> None"
  by (auto simp: loop_tokens RegExp_new_def parse_tokens split: option.splits)


lemma trail_all:
  "\<forall>c \<in> set s. P c \<Longrightarrow> length (takeWhile P (rev s)) = length s"
  by (simp add: takeWhile_eq_all_conv[THEN iffD2])

lemma trail_cons:
  "length (takeWhile P (rev (x # s))) =
    (if \<forall>c \<in> set s. P c then (if P x then Suc (length s) else length s)
     else length (takeWhile P (rev s)))"
proof (cases "\<forall>c \<in> set s. P c")
  case True
  then have "takeWhile P (rev s @ [x]) = rev s @ takeWhile P [x]"
    by (intro takeWhile_append2) auto
  with True show ?thesis by simp
next
  case False
  then obtain c where "c \<in> set (rev s)" "\<not> P c" by auto
  then have "takeWhile P (rev s @ [x]) = takeWhile P (rev s)" by (rule takeWhile_append1)
  with False show ?thesis by auto
qed

lemma dangling_other:
  "c \<noteq> CHR 0x5C \<Longrightarrow> ends_with_dangling_escape (c # rest) = ends_with_dangling_escape rest"
  unfolding ends_with_dangling_escape_def
  by (simp only: trail_cons) (simp add: trail_all)

lemma dangling_escaped:
  "ends_with_dangling_escape (CHR 0x5C # e # rest) = ends_with_dangling_escape rest"
  unfolding ends_with_dangling_escape_def
  by (simp only: trail_cons) (auto simp add: trail_all)

lemma dangling_single: "ends_with_dangling_escape [CHR 0x5C]"
  by (simp add: ends_with_dangling_escape_def)

lemma dangling_empty: "\<not> ends_with_dangling_escape []"
  by (simp add: ends_with_dangling_escape_def)

lemma like_tokens_None: "like_tokens src = None \<longleftrightarrow> ends_with_dangling_escape src"
proof (induction src rule: like_tokens.induct)
  case 1
  then show ?case by (simp add: dangling_empty)
next
  case (2 c rest)
  show ?case
  proof (cases "c = CHR 0x5C")
    case True
    show ?thesis
    proof (cases rest)
      case Nil
      with True show ?thesis by (simp add: dangling_single)
    next
      case (Cons e rest')
      have "c \<noteq> CHR ''%''" "c \<noteq> CHR ''_''" using True by simp_all
      from 2(3)[OF this True Cons] True Cons show ?thesis by (simp add: dangling_escaped)
    qed
  next
    case False
    show ?thesis
    proof (cases "c = CHR ''%''")
      case True
      with 2(1) False show ?thesis by (simp add: dangling_other)
    next
      case np: False
      show ?thesis
      proof (cases "c = CHR ''_''")
        case True
        with 2(2) np False show ?thesis by (simp add: dangling_other)
      next
        case nu: False
        with 2(4) np False show ?thesis by (simp add: dangling_other)
      qed
    qed
  qed
qed

lemma like_tokens_plain:
  "\<not> has_wildcard_or_escape s \<Longrightarrow> like_tokens s = Some (map Literal s)"
  by (induction s) (auto simp: has_wildcard_or_escape_def)

lemma plain_not_dangling:
  "\<not> has_wildcard_or_escape s \<Longrightarrow> \<not> ends_with_dangling_escape s"
  using like_tokens_None[of s] like_tokens_plain[of s] by simp

lemma getLikeOp_string:
  "getLikeOp (PString s) flags =
    (if \<not> has_wildcard_or_escape s then
       Inr (if flags = IgnoreCase then (\<lambda>lhs. toLowerCase lhs = toLowerCase s)
            else (\<lambda>lhs. PString lhs = PString s))
     else (case like_tokens s of
        None \<Rightarrow> Inl (Error ''LIKE pattern must not end with escape character'')
      | Some ts \<Rightarrow> Inr (\<lambda>lhs. atoms_match (flags = IgnoreCase) (map token_atom ts) lhs)))"
  by (auto simp add: getLikeOp_def patternToRegExp_tokens RegExp_test_def fun_eq_iff split: option.splits)

lemma getLikeOp_error:
  "(\<exists>e. getLikeOp (PString s) flags = Inl e) \<longleftrightarrow> ends_with_dangling_escape s"
proof (cases "has_wildcard_or_escape s")
  case True
  then show ?thesis
    using like_tokens_None[of s] by (auto simp: getLikeOp_string split: option.splits)
next
  case False
  then show ?thesis
    using plain_not_dangling[of s] by (simp add: getLikeOp_string)
qed

lemma getLikeOp_error_message:
  "getLikeOp (PString s) flags = Inl e \<Longrightarrow> e = Error ''LIKE pattern must not end with escape character''"
  by (auto simp: getLikeOp_string split: option.splits if_splits)

lemma String_of_nonstring_plain:
  "\<forall>s. v \<noteq> PString s \<Longrightarrow> \<not> has_wildcard_or_escape (String_of v)"
proof (cases v)
  case (PNumber n)
  show ?thesis
  proof (cases n)
    case (Finite i)
    have "CHR ''_'' \<notin> set ''-0123456789''" "CHR ''%'' \<notin> set ''-0123456789''"
      "CHR 0x5C \<notin> set ''-0123456789''" by simp_all
    with Number_toString_Finite_set[of i]
    have "CHR ''_'' \<notin> set (Number_toString (Finite i))"
      "CHR ''%'' \<notin> set (Number_toString (Finite i))"
      "CHR 0x5C \<notin> set (Number_toString (Finite i))" by blast+
    then have "\<forall>c \<in> set (Number_toString (Finite i)). \<not> (c = CHR ''_'' \<or> c = CHR ''%'' \<or> c = CHR 0x5C)"
      by blast
    with PNumber Finite show ?thesis
      unfolding has_wildcard_or_escape_def list_ex_iff by (simp only: String_of.simps) blast
  qed (simp_all add: PNumber has_wildcard_or_escape_def)
qed (simp_all add: has_wildcard_or_escape_def)

lemma getLikeOp_nonstring:
  "\<forall>s. v \<noteq> PString s \<Longrightarrow>
   getLikeOp v flags =
     (if flags = IgnoreCase then Inl (Error ''TypeError: pattern.toLowerCase is not a function'')
      else Inr (\<lambda>lhs. PString lhs = v))"
  using String_of_nonstring_plain[of v] by (cases v) (simp_all add: getLikeOp_def)

section \<open>Properties of \<open>getOperator\<close> and \<open>applyWhere\<close>\<close>

lemma applySimpleCondition_ok:
  "(\<exists>p. applySimpleCondition stream op selector rhs = Inr p) \<longleftrightarrow> \<not> isl (getOperator op rhs)"
  by (cases "getOperator op rhs") (simp_all add: applySimpleCondition_def Let_def)

lemma where_compiles_simps:
  "where_compiles (Simple op selector rhs) = (\<not> isl (getOperator op rhs))"
  "where_compiles (Conjunction cop conditions) = list_all where_compiles conditions"
  by (auto simp: where_compiles_def list_all_iff)

lemma map_sum_id_Inl: "map_sum id g x = Inl e \<longleftrightarrow> x = Inl e"
  by (cases x) auto

lemma applyWhere_ok:
  "(\<exists>p. applyWhere stream w = Inr p) \<longleftrightarrow> where_compiles w"
  "(\<exists>p. applyAnd stream ws = Inr p) \<longleftrightarrow> list_all where_compiles ws"
  "(\<exists>ps. applyOr_branches stream ws = Inr ps) \<longleftrightarrow> list_all where_compiles ws"
proof (induction stream w and stream ws and stream ws rule: applyWhere_applyAnd_applyOr_branches.induct)
  case (1 stream op selector rhs)
  then show ?case by (simp add: applySimpleCondition_ok where_compiles_simps)
next
  case (2 stream conditions)
  then show ?case by (simp add: where_compiles_simps)
next
  case (3 stream conditions)
  then show ?case
    by (cases "applyOr_branches stream conditions") (auto simp add: where_compiles_simps)
next
  case (4 stream)
  then show ?case by simp
next
  case (5 stream condition conditions)
  show ?case
  proof (cases "applyWhere stream condition")
    case (Inl e)
    with 5(1) show ?thesis by auto
  next
    case (Inr s')
    with 5(1) 5(2)[OF Inr] show ?thesis by auto
  qed
next
  case (6 stream)
  then show ?case by simp
next
  case (7 stream c conditions)
  show ?case
  proof (cases "applyWhere stream c")
    case (Inl e)
    with 7(1) show ?thesis by auto
  next
    case (Inr s')
    with 7(1) 7(2)[OF Inr] show ?thesis by (auto split: sum.splits)
  qed
qed

lemma getOperator_like_error:
  "is_like_operator op \<Longrightarrow>
   (\<exists>e. getOperator op (PString pattern) = Inl e) \<longleftrightarrow> ends_with_dangling_escape pattern"
  unfolding is_like_operator_def getOperator_def
  using getLikeOp_error[of pattern NoFlag] getLikeOp_error[of pattern IgnoreCase]
  by (auto simp: map_sum_id_Inl)

lemma getOperator_nonstring:
  "\<forall>s. v \<noteq> PString s \<Longrightarrow> is_like_operator op \<Longrightarrow>
   (\<exists>e. getOperator op v = Inl e) \<longleftrightarrow> (op = ILIKE \<or> op = NOT_ILIKE)"
  unfolding is_like_operator_def getOperator_def
  by (auto simp: getLikeOp_nonstring)

lemma getOperator_other_ok:
  "\<not> is_like_operator op \<Longrightarrow> getOperator op rhs = Inr (Compare op rhs)"
  by (cases op) (simp_all add: is_like_operator_def getOperator_def)

lemma getOperator_like_message:
  "getOperator op (PString pattern) = Inl e \<Longrightarrow>
   e = Error ''LIKE pattern must not end with escape character''"
  using getLikeOp_error_message[of pattern NoFlag e] getLikeOp_error_message[of pattern IgnoreCase e]
  by (cases op) (auto simp add: getOperator_def map_sum_id_Inl)

lemma getOperator_like_predicate:
  "is_like_operator op \<Longrightarrow> getOperator op rhs = Inr g \<Longrightarrow> \<exists>f. g = LikePredicate f"
  by (cases op; cases "getLikeOp rhs NoFlag"; cases "getLikeOp rhs IgnoreCase")
     (auto simp: is_like_operator_def getOperator_def)

lemma buildPipeline_where_error:
  "ast_where ast = Some w \<Longrightarrow> \<not> where_compiles w \<Longrightarrow> \<exists>e. buildPipeline provider ast = Inl e"
proof -
  assume w: "ast_where ast = Some w" and n: "\<not> where_compiles w"
  from n applyWhere_ok(1)[of "provider (ast_table ast)" w]
  obtain e where "applyWhere (provider (ast_table ast)) w = Inl e"
    by (cases "applyWhere (provider (ast_table ast)) w") auto
  with w show ?thesis by (simp add: buildPipeline_def)
qed

section \<open>Properties of the aggregation stages\<close>





section \<open>The compiled predicate against the reading of the pattern\<close>

lemma of_char_lt_256: "(of_char c :: nat) < 256"
  by (metis of_char_mod_256 mod_less_divisor zero_less_numeral)

lemma lower_nat:
  "(of_char (toLowerCase_char c) :: nat) =
    (if (65 \<le> (of_char c :: nat) \<and> (of_char c :: nat) \<le> 90)
        \<or> (192 \<le> (of_char c :: nat) \<and> (of_char c :: nat) \<le> 222 \<and> (of_char c :: nat) \<noteq> 215)
     then of_char c + 32 else of_char c)"
proof -
  have "(of_char c :: nat) + 32 < 256" if "(of_char c :: nat) \<le> 222"
    using that by simp
  then show ?thesis
    by (simp add: toLowerCase_char_def Let_def)
qed

lemma canon_of_lower: "Canonicalize (toLowerCase_char c) = Canonicalize c"
proof -
  define n where "n = (of_char c :: nat)"
  have "n < 256" unfolding n_def by (rule of_char_lt_256)
  then show ?thesis
    unfolding Canonicalize_def Let_def lower_nat n_def[symmetric]
    by (simp split: if_splits) 
qed


lemma lower_of_canon:
  "(of_char (toLowerCase_char c) :: nat) =
    (if (65 \<le> Canonicalize c \<and> Canonicalize c \<le> 90)
        \<or> (192 \<le> Canonicalize c \<and> Canonicalize c \<le> 222 \<and> Canonicalize c \<noteq> 215)
     then Canonicalize c + 32
     else if Canonicalize c = 924 then 181
     else if Canonicalize c = 376 then 255
     else Canonicalize c)"
proof -
  define n where "n = (of_char c :: nat)"
  have "n < 256" unfolding n_def by (rule of_char_lt_256)
  then show ?thesis
    unfolding Canonicalize_def Let_def lower_nat n_def[symmetric]
    by (simp split: if_splits; arith)
qed

lemma canon_lower:
  "Canonicalize l = Canonicalize c \<longleftrightarrow> toLowerCase_char l = toLowerCase_char c"
proof
  assume "Canonicalize l = Canonicalize c"
  then have "(of_char (toLowerCase_char l) :: nat) = of_char (toLowerCase_char c)"
    by (simp only: lower_of_canon)
  then show "toLowerCase_char l = toLowerCase_char c" by simp
next
  assume "toLowerCase_char l = toLowerCase_char c"
  then have "Canonicalize (toLowerCase_char l) = Canonicalize (toLowerCase_char c)" by simp
  then show "Canonicalize l = Canonicalize c" by (simp only: canon_of_lower)
qed

lemma atom_matches_token:
  "\<not> is_line_terminator c \<Longrightarrow>
   atom_matches ic (fst (token_atom t)) c =
     (case t of Literal l \<Rightarrow> same_char ic l c | _ \<Rightarrow> True)"
  by (cases t) (simp_all add: token_simps atom_matches_def same_char_def canon_lower)

lemma atoms_match_like:
  "\<forall>c \<in> set s. \<not> is_line_terminator c \<Longrightarrow>
   atoms_match ic (map token_atom ts) s = like_matches ic ts s"
proof (induction ic ts s rule: like_matches.induct)
  case (1 ic s)
  then show ?case by simp
next
  case (2 ic ts)
  then show ?case by (simp add: token_simps)
next
  case (3 ic ts c cs)
  then show ?case by (simp add: token_simps atom_matches_def)
next
  case (4 ic ts)
  then show ?case by (simp add: token_simps)
next
  case (5 ic ts c cs)
  then show ?case by (simp add: token_simps atom_matches_def)
next
  case (6 ic l ts)
  then show ?case by (simp add: token_simps)
next
  case (7 ic l ts c cs)
  then show ?case by (simp add: token_simps atom_matches_def same_char_def canon_lower)
qed

lemma like_matches_plain:
  "like_matches ic (map Literal p) s \<longleftrightarrow>
    length s = length p \<and> list_all2 (\<lambda>l c. same_char ic l c) p s"
proof (induction p arbitrary: s)
  case Nil
  then show ?case by simp
next
  case (Cons l p)
  then show ?case by (cases s) auto
qed

lemma plain_case_sensitive: "like_matches False (map Literal p) s \<longleftrightarrow> s = p"
  by (auto simp: like_matches_plain same_char_def list_all2_eq[symmetric])

lemma plain_ignore_case: "like_matches True (map Literal p) s \<longleftrightarrow> toLowerCase s = toLowerCase p"
proof -
  have "list_all2 (\<lambda>l c. toLowerCase_char l = toLowerCase_char c) p s
      \<longleftrightarrow> map toLowerCase_char p = map toLowerCase_char s"
    by (auto simp add: list_all2_conv_all_nth list_eq_iff_nth_eq)
  moreover have "map toLowerCase_char p = map toLowerCase_char s \<Longrightarrow> length s = length p"
    by (metis length_map)
  ultimately show ?thesis
    by (auto simp: like_matches_plain same_char_def toLowerCase_def)
qed

lemma getLikeOp_like_matches:
  assumes t: "like_tokens p = Some ts" and s: "\<forall>c \<in> set s. \<not> is_line_terminator c"
  shows "\<exists>f. getLikeOp (PString p) flags = Inr f \<and> f s = like_matches (flags = IgnoreCase) ts s"
proof (cases "has_wildcard_or_escape p")
  case True
  with t atoms_match_like[OF s] show ?thesis by (simp add: getLikeOp_string)
next
  case False
  with t like_tokens_plain[OF False] have ts: "ts = map Literal p" by simp
  show ?thesis
  proof (cases "flags = IgnoreCase")
    case True
    with False ts show ?thesis by (simp add: getLikeOp_string plain_ignore_case)
  next
    case nf: False
    with False ts show ?thesis by (auto simp add: getLikeOp_string plain_case_sensitive)
  qed
qed

section \<open>Properties of the group-by reducer\<close>

lemma map_of_object_set_iff:
  "map_of (object_set ps k v) k' = (if k' = k then Some v else map_of ps k')"
  by (simp add: map_of_object_set map_of_object_set_other)

lemma group_reducer_keeps:
  "k \<notin> set (map agg_alias aggregations) \<Longrightarrow>
   map_of (foldl (\<lambda>ret aggregation.
             object_set ret (agg_alias aggregation) (aggregate_cell ops aggregation vals))
      (case first # rest of [] \<Rightarrow> [] | first # rest \<Rightarrow> map (\<lambda>(k, v). (k, Value (Some v))) first)
      aggregations) k
   = map_option (\<lambda>v. Value (Some v)) (map_of first k)"
proof -
  assume k: "k \<notin> set (map agg_alias aggregations)"
  have f: "\<And>init. map_of (foldl (\<lambda>ret aggregation.
             object_set ret (agg_alias aggregation) (aggregate_cell ops aggregation vals))
             init aggregations) k = map_of init k"
    using k by (induction aggregations) (auto simp: map_of_object_set_iff)
  have "map_of (map (\<lambda>(k, v). (k, Value (Some v))) first) k
      = map_option (\<lambda>v. Value (Some v)) (map_of first k)"
    by (induction first) auto
  with f show ?thesis by simp
qed

lemma ex_key_a:
  "makeKeyFunction [''g''] (ex_row i ''a'' v) = [CHR ''['', CHR 0x22, CHR ''a'', CHR 0x22, CHR '']'']"
  by (simp add: makeKeyFunction_def selectorsToQualifiedColumns_def getValueFromEntity_def
      ex_row_def row_get_def normalizeUndefined_def JSON_stringify_array_def
      QuoteJSONString_def QuoteJSONChar_def)

lemma ex_key_b:
  "makeKeyFunction [''g''] (ex_row i ''b'' v) = [CHR ''['', CHR 0x22, CHR ''b'', CHR 0x22, CHR '']'']"
  by (simp add: makeKeyFunction_def selectorsToQualifiedColumns_def getValueFromEntity_def
      ex_row_def row_get_def normalizeUndefined_def JSON_stringify_array_def
      QuoteJSONString_def QuoteJSONChar_def)

lemma ex_id: "row_get (ex_row i g v) ''id'' = Some (PString i)"
  by (simp add: ex_row_def row_get_def)

lemma ex_groups_value:
  "foldl (reduce_step (makeKeyFunction [''g'']) (\<lambda>value. row_get value ''id'')) [] ex_differences =
    [([CHR ''['', CHR 0x22, CHR ''a'', CHR 0x22, CHR '']''],
      [(Some (PString ''1''), ex_row ''1'' ''a'' 1), (Some (PString ''2''), ex_row ''2'' ''a'' 2)]),
     ([CHR ''['', CHR 0x22, CHR ''b'', CHR 0x22, CHR '']''],
      [(Some (PString ''3''), ex_row ''3'' ''b'' 5)])]"
  by (simp add: ex_differences_def ex_key_a ex_key_b ex_id member_add_def)

lemma ex_groups_removed:
  "foldl (reduce_step (makeKeyFunction [''g'']) (\<lambda>value. row_get value ''id'')) []
      (ex_differences @ [Removed (ex_row ''1'' ''a'' 1)]) =
    [([CHR ''['', CHR 0x22, CHR ''a'', CHR 0x22, CHR '']''],
      [(Some (PString ''2''), ex_row ''2'' ''a'' 2)]),
     ([CHR ''['', CHR 0x22, CHR ''b'', CHR 0x22, CHR '']''],
      [(Some (PString ''3''), ex_row ''3'' ''b'' 5)])]"
  by (simp add: ex_groups_value ex_key_a ex_id reduce_remove_def)

section \<open>Properties of the comparison functions and of the sort\<close>

lemma char_less_of_char: "(a :: char) < b \<longleftrightarrow> int (of_char a) - int (of_char b) < 0"
  by (simp add: less_char_def)

lemma char_diff_zero: "int (of_char (a :: char)) - int (of_char b) = 0 \<longleftrightarrow> a = b"
  by simp

lemma compareUTF8_less: "compareUTF8 a b < 0 \<longleftrightarrow> a < b"
  by (induction a b rule: compareUTF8.induct) (auto simp: char_less_of_char)

lemma compareUTF8_eq: "compareUTF8 a b = 0 \<longleftrightarrow> a = b"
  by (induction a b rule: compareUTF8.induct) auto

lemma compareUTF8_le: "compareUTF8 a b \<le> 0 \<longleftrightarrow> a \<le> b"
  using compareUTF8_less[of a b] compareUTF8_eq[of a b] by (auto simp: order.order_iff_strict)

lemma insert_by_insort_key:
  "\<forall>y \<in> set ys. compareFn x y \<le> 0 \<longleftrightarrow> k x \<le> k y \<Longrightarrow>
   insert_by compareFn x ys = insort_key k x ys"
  by (induction ys) auto

lemma set_foldr_insort_key: "set (foldr (insort_key k) xs []) = set xs"
  by (induction xs) (auto simp: set_insort_key)

lemma Array_sort_sort_key:
  "\<forall>x \<in> set xs. \<forall>y \<in> set xs. compareFn x y \<le> 0 \<longleftrightarrow> k x \<le> k y \<Longrightarrow>
   Array_sort compareFn xs = sort_key k xs"
proof (induction xs)
  case Nil
  then show ?case by (simp add: Array_sort_def)
next
  case (Cons x xs)
  then have ih: "Array_sort compareFn xs = sort_key k xs" by simp
  have "insert_by compareFn x (sort_key k xs) = insort_key k x (sort_key k xs)"
    using Cons.prems by (intro insert_by_insort_key) simp
  with ih show ?case by (simp add: Array_sort_def sort_key_def)
qed

lemma Array_sort_compareUTF8: "Array_sort compareUTF8 xs = sort xs"
  by (rule Array_sort_sort_key) (simp add: compareUTF8_le)

lemma or_else_sign:
  "or_else x y < 0 \<longleftrightarrow> x < 0 \<or> (x = 0 \<and> y < 0)"
  "or_else x y = 0 \<longleftrightarrow> x = 0 \<and> y = 0"
  by (auto simp: or_else_def)

lemma cmp_simple_less:
  "cmp (Simple op1 f1 v1) (Simple op2 f2 v2) < 0 \<longleftrightarrow>
    (f1, operator_name op1, String_of v1) < (f2, operator_name op2, String_of v2)"
  by (auto simp: or_else_sign compareUTF8_less compareUTF8_eq)

lemma cmp_simple_eq:
  "cmp (Simple op1 f1 v1) (Simple op2 f2 v2) = 0 \<longleftrightarrow>
    (f1, operator_name op1, String_of v1) = (f2, operator_name op2, String_of v2)"
  by (auto simp: or_else_sign compareUTF8_eq)

lemma conjunction_name_cmp:
  "compareUTF8 (conjunction_name op1) (conjunction_name op2) < 0 \<longleftrightarrow> op1 = OpAND \<and> op2 = OpOR"
  "compareUTF8 (conjunction_name op1) (conjunction_name op2) = 0 \<longleftrightarrow> op1 = op2"
  by (cases op1; cases op2; simp add: conjunction_name_def)+

lemma cmp_key_hd: "\<exists>t k rest. cmp_key a = (t, k) # rest \<and> 1 \<le> t"
  by (cases a rule: cmp_key.cases) (auto split: ConjunctionOp.splits)

lemma cmp_key_order:
  "(\<forall>r s. (cmp_key a @ r < cmp_key b @ s \<longleftrightarrow> cmp a b < 0 \<or> (cmp a b = 0 \<and> r < s))
        \<and> (cmp_key a @ r = cmp_key b @ s \<longleftrightarrow> cmp a b = 0 \<and> r = s))"
  "(\<forall>r s. (concat (map cmp_key as) @ (0 :: nat, [] :: string, [] :: string, [] :: string) # r < concat (map cmp_key bs) @ (0 :: nat, [] :: string, [] :: string, [] :: string) # s
            \<longleftrightarrow> cmp_conditions as bs < 0 \<or> (cmp_conditions as bs = 0 \<and> r < s))
        \<and> (concat (map cmp_key as) @ (0 :: nat, [] :: string, [] :: string, [] :: string) # r = concat (map cmp_key bs) @ (0 :: nat, [] :: string, [] :: string, [] :: string) # s
            \<longleftrightarrow> cmp_conditions as bs = 0 \<and> r = s))"
proof (induction a b and as bs rule: cmp_cmp_conditions.induct)
  case (1 op1 field1 v1 op2 conds2)
  then show ?case by (cases op2) auto
next
  case (2 op1 field1 v1 op2 field2 v2)
  show ?case
    using cmp_simple_less[of op1 field1 v1 op2 field2 v2] cmp_simple_eq[of op1 field1 v1 op2 field2 v2]
    by (auto simp del: cmp.simps)
next
  case (3 op1 conds1 op2 field2 v2)
  then show ?case by (cases op1) auto
next
  case (4 op1 conds1 op2 conds2)
  show ?case
  proof (cases "op1 = op2")
    case True
    with 4 show ?thesis by (simp add: conjunction_name_cmp split: ConjunctionOp.splits)
  next
    case False
    then show ?thesis
      by (cases op1; cases op2) (simp_all add: conjunction_name_def)
  qed
next
  case (5 a as b bs)
  show ?case
  proof (cases "cmp a b = 0")
    case True
    with 5 show ?thesis by simp
  next
    case False
    with 5(1) show ?thesis by simp
  qed
next
  case (6 bs)
  show ?case
  proof (cases bs)
    case Nil
    then show ?thesis by simp
  next
    case (Cons b bs')
    obtain t k rest where "cmp_key b = (t, k) # rest" "1 \<le> t" using cmp_key_hd by blast
    with Cons show ?thesis by auto
  qed
next
  case (7 a as)
  obtain t k rest where "cmp_key a = (t, k) # rest" "1 \<le> t" using cmp_key_hd by blast
  then show ?case by auto
qed

lemma cmp_less_key: "cmp a b < 0 \<longleftrightarrow> cmp_key a < cmp_key b"
  using cmp_key_order(1)[of a b] by (metis append_Nil2 less_irrefl)

lemma cmp_eq_key: "cmp a b = 0 \<longleftrightarrow> cmp_key a = cmp_key b"
  using cmp_key_order(1)[of a b] by (metis append_Nil2)

lemma cmp_le_key: "cmp a b \<le> 0 \<longleftrightarrow> cmp_key a \<le> cmp_key b"
  using cmp_less_key[of a b] cmp_eq_key[of a b] by (auto simp: order.order_iff_strict)

lemma Array_sort_cmp: "Array_sort cmp xs = sort_key cmp_key xs"
  by (rule Array_sort_sort_key) (simp add: cmp_le_key)

section \<open>Sorting makes the order of the conditions irrelevant\<close>

lemma operator_name_inj: "operator_name a = operator_name b \<Longrightarrow> a = b"
proof -
  let ?ops = "[OpEq, OpNe, OpLt, OpGt, OpLe, OpGe, OpIN, OpNOT_IN, LIKE, NOT_LIKE, ILIKE, NOT_ILIKE]"
  assume e: "operator_name a = operator_name b"
  have "distinct (map operator_name ?ops)" by (simp add: operator_name_def)
  then have i: "inj_on operator_name (set ?ops)" by (simp only: distinct_map)
  have "a \<in> set ?ops" by (cases a) simp_all
  moreover have "b \<in> set ?ops" by (cases b) simp_all
  ultimately show "a = b" using i e by (rule inj_onD[rotated 2])
qed

lemma cmp_zero_eq:
  "inj_on compared_part (set (simple_conditions a) \<union> set (simple_conditions b)) \<Longrightarrow>
     cmp a b = 0 \<Longrightarrow> a = b"
  "inj_on compared_part ((\<Union>c \<in> set as. set (simple_conditions c))
       \<union> (\<Union>c \<in> set bs. set (simple_conditions c))) \<Longrightarrow>
     cmp_conditions as bs = 0 \<Longrightarrow> as = bs"
proof (induction a b and as bs rule: cmp_cmp_conditions.induct)
  case (1 op1 field1 v1 op2 conds2)
  then show ?case by simp
next
  case (2 op1 field1 v1 op2 field2 v2)
  from 2(2) have "(field1, operator_name op1, String_of v1) = (field2, operator_name op2, String_of v2)"
    by (simp only: cmp_simple_eq)
  then have e: "compared_part (op1, field1, v1) = compared_part (op2, field2, v2)"
    by (simp add: compared_part_def)
  have "(op1, field1, v1) = (op2, field2, v2)"
    using 2(1) e by (rule inj_onD) simp_all
  then show ?case by simp
next
  case (3 op1 conds1 op2 field2 v2)
  then show ?case by simp
next
  case (4 op1 conds1 op2 conds2)
  from 4(3) have o: "op1 = op2" by (auto simp: conjunction_name_cmp split: if_splits)
  with 4(3) have c: "cmp_conditions conds1 conds2 = 0" by (simp add: conjunction_name_cmp)
  from o have z: "\<not> compareUTF8 (conjunction_name op1) (conjunction_name op2) \<noteq> 0"
    by (simp add: conjunction_name_cmp)
  from 4(2) have "inj_on compared_part ((\<Union>c \<in> set conds1. set (simple_conditions c))
       \<union> (\<Union>c \<in> set conds2. set (simple_conditions c)))"
    by simp
  from 4(1)[OF z this c] o show ?case by simp
next
  case (5 a as b bs)
  from 5(5) have ab: "cmp a b = 0" and r: "cmp_conditions as bs = 0" by (auto split: if_splits)
  have i1: "inj_on compared_part (set (simple_conditions a) \<union> set (simple_conditions b))"
    using 5(4) by (rule inj_on_subset) auto
  have i2: "inj_on compared_part ((\<Union>c \<in> set as. set (simple_conditions c))
       \<union> (\<Union>c \<in> set bs. set (simple_conditions c)))"
    using 5(4) by (rule inj_on_subset) auto
  from ab have nz: "\<not> cmp a b \<noteq> 0" by simp
  from 5(1)[OF i1 ab] 5(3)[OF nz i2 r] show ?case by simp
next
  case (6 bs)
  then show ?case by simp
next
  case (7 a as)
  then show ?case by simp
qed

lemma set_Array_sort_cmp: "set (Array_sort cmp xs) = set xs"
  by (simp add: Array_sort_cmp)

lemma simple_conditions_sorted:
  "set (simple_conditions (sorted_condition c)) = set (simple_conditions c)"
  by (induction c) (auto simp: set_Array_sort_cmp)

lemma mset_map_transfer:
  "mset (map f xs) = mset (map f ys) \<Longrightarrow>
   (\<And>x y. x \<in> set xs \<Longrightarrow> y \<in> set ys \<Longrightarrow> f x = f y \<Longrightarrow> g x = g y) \<Longrightarrow>
   mset (map g xs) = mset (map g ys)"
proof (induction xs arbitrary: ys)
  case Nil
  then show ?case by simp
next
  case (Cons x xs)
  from Cons.prems(1) have "f x \<in># mset (map f ys)" by (metis list.set_intros(1) list.simps(9) set_mset_mset)
  then obtain y where y: "y \<in> set ys" "f y = f x" by auto
  then obtain ys1 ys2 where ys: "ys = ys1 @ y # ys2" by (meson split_list)
  with Cons.prems(1) y have m: "mset (map f xs) = mset (map f (ys1 @ ys2))" by simp
  have "mset (map g xs) = mset (map g (ys1 @ ys2))"
  proof (rule Cons.IH[OF m])
    fix a b assume "a \<in> set xs" "b \<in> set (ys1 @ ys2)" "f a = f b"
    with ys show "g a = g b" by (intro Cons.prems(2)) auto
  qed
  moreover have "g x = g y" using y ys by (intro Cons.prems(2)) auto
  ultimately show ?case using ys by simp
qed

lemma unordered_simple_conditions:
  "unordered c = unordered d \<Longrightarrow> set (simple_conditions c) = set (simple_conditions d)"
proof (induction c arbitrary: d)
  case (Simple op field v)
  then show ?case by (cases d) auto
next
  case (Conjunction op cs)
  from Conjunction.prems obtain ds where d: "d = Conjunction op ds"
    and m: "mset (map unordered cs) = mset (map unordered ds)" by (cases d) auto
  from m have s: "unordered ` set cs = unordered ` set ds" by (metis set_map set_mset_mset)
  have "(\<Union>c \<in> set cs. set (simple_conditions c)) = (\<Union>c \<in> set ds. set (simple_conditions c))"
  proof (intro equalityI subsetI)
    fix x assume "x \<in> (\<Union>c \<in> set cs. set (simple_conditions c))"
    then obtain c where c: "c \<in> set cs" "x \<in> set (simple_conditions c)" by auto
    with s obtain e where "e \<in> set ds" "unordered c = unordered e" by (metis imageE imageI)
    with c Conjunction.IH[of c e] show "x \<in> (\<Union>c \<in> set ds. set (simple_conditions c))" by auto
  next
    fix x assume "x \<in> (\<Union>c \<in> set ds. set (simple_conditions c))"
    then obtain e where e: "e \<in> set ds" "x \<in> set (simple_conditions e)" by auto
    with s obtain c where "c \<in> set cs" "unordered c = unordered e" by (metis imageE imageI)
    with e Conjunction.IH[of c e] show "x \<in> (\<Union>c \<in> set cs. set (simple_conditions c))" by auto
  qed
  with d show ?case by simp
qed

lemma sorted_unordered:
  "unordered c = unordered d \<Longrightarrow> inj_on compared_part (set (simple_conditions c)) \<Longrightarrow>
   sorted_condition c = sorted_condition d"
proof (induction c arbitrary: d)
  case (Simple op field v)
  then show ?case by (cases d) auto
next
  case (Conjunction op cs)
  from Conjunction.prems obtain ds where d: "d = Conjunction op ds"
    and m: "mset (map unordered cs) = mset (map unordered ds)" by (cases d) auto
  from Conjunction.prems(2)
  have inj_cs: "inj_on compared_part (\<Union>c \<in> set cs. set (simple_conditions c))" by simp
  have ms: "mset (map sorted_condition cs) = mset (map sorted_condition ds)"
  proof (rule mset_map_transfer[OF m])
    fix x y assume x: "x \<in> set cs" and "y \<in> set ds" and u: "unordered x = unordered y"
    have "inj_on compared_part (set (simple_conditions x))"
      using inj_cs by (rule inj_on_subset) (use x in auto)
    from Conjunction.IH[OF x u this] show "sorted_condition x = sorted_condition y" .
  qed
  have inj: "inj_on cmp_key (set (map sorted_condition cs))"
  proof (rule inj_onI)
    fix a b assume a: "a \<in> set (map sorted_condition cs)" and b: "b \<in> set (map sorted_condition cs)"
      and k: "cmp_key a = cmp_key b"
    from a b have "set (simple_conditions a) \<union> set (simple_conditions b)
        \<subseteq> (\<Union>c \<in> set cs. set (simple_conditions c))"
      by (auto simp: simple_conditions_sorted)
    with inj_cs have "inj_on compared_part (set (simple_conditions a) \<union> set (simple_conditions b))"
      by (auto intro: inj_on_subset)
    moreover from k have "cmp a b = 0" by (simp add: cmp_eq_key)
    ultimately show "a = b" by (rule cmp_zero_eq(1))
  qed
  have "sort_key cmp_key (map sorted_condition cs) = sort_key cmp_key (map sorted_condition ds)"
    using ms inj by (intro sort_key_inj_key_eq) simp_all
  with d show ?case by (simp add: Array_sort_cmp)
qed

section \<open>Flattening respects the order of the conditions\<close>

lemma flattened_each_map: "flattened_each cs = map flattened cs"
  by (induction cs) simp_all

lemma flattened_children_concat:
  "flattened_children op cs =
    concat (map (\<lambda>x. case x of
        Conjunction op' conds \<Rightarrow> if op' = op then map flattened conds else [flattened x]
      | Simple sop field v \<Rightarrow> [flattened x]) cs)"
proof (induction cs)
  case Nil
  then show ?case by simp
next
  case (Cons c cs)
  then show ?case by (cases c) (simp_all add: flattened_each_map)
qed

lemma defined_map: "map f (defined xs) = defined (map (map_option f) xs)"
  by (induction xs rule: defined.induct) simp_all

lemma mset_defined: "mset (defined xs) = image_mset the (filter_mset (\<lambda>x. x \<noteq> None) (mset xs))"
  by (induction xs rule: defined.induct) simp_all

lemma mset_defined_cong: "mset xs = mset ys \<Longrightarrow> mset (defined xs) = mset (defined ys)"
  by (simp add: mset_defined)

lemma mset_concat_cong:
  "mset (map mset xss) = mset (map mset yss) \<Longrightarrow> mset (concat xss) = mset (concat yss)"
proof -
  assume a: "mset (map mset xss) = mset (map mset yss)"
  have "\<And>zss :: 'a list list. mset (concat zss) = sum_mset (mset (map mset zss))"
    by (induct_tac zss) simp_all
  with a show ?thesis by simp
qed

lemma size_child: "x \<in> set cs \<Longrightarrow> size x < size (Conjunction op cs)"
  by (simp add: less_Suc_eq_le size_list_estimation')

lemma flattened_unordered:
  "unordered c = unordered d \<Longrightarrow>
   map_option unordered (flattened c) = map_option unordered (flattened d)"
proof (induction c arbitrary: d rule: measure_induct_rule[of size])
  case (less c)
  show ?case
  proof (cases c)
    case (Simple sop field v)
    with less.prems show ?thesis by (cases d) auto
  next
    case (Conjunction op cs)
    from less.prems Conjunction obtain ds where d: "d = Conjunction op ds"
      and m: "mset (map unordered cs) = mset (map unordered ds)" by (cases d) auto
    let ?U = "map_option unordered"
    let ?chunk = "\<lambda>x. case x of
        Conjunction op' conds \<Rightarrow> if op' = op then map flattened conds else [flattened x]
      | Simple sop field v \<Rightarrow> [flattened x]"
    have K: "mset (map ?U (?chunk x)) = mset (map ?U (?chunk y))"
      if x: "x \<in> set cs" and y: "y \<in> set ds" and u: "unordered x = unordered y" for x y
    proof (cases x)
      case (Simple sop field v)
      with u show ?thesis by (cases y) auto
    next
      case xc: (Conjunction op' xs)
      with u obtain ys where yc: "y = Conjunction op' ys"
        and mm: "mset (map unordered xs) = mset (map unordered ys)" by (cases y) auto
      have sx: "size x < size c" using size_child[OF x, of op] Conjunction by simp
      show ?thesis
      proof (cases "op' = op")
        case True
        have "mset (map (\<lambda>z. ?U (flattened z)) xs) = mset (map (\<lambda>z. ?U (flattened z)) ys)"
        proof (rule mset_map_transfer[OF mm])
          fix a b assume a: "a \<in> set xs" and "b \<in> set ys" and ab: "unordered a = unordered b"
          from size_child[OF a, of op'] xc have "size a < size x" by simp
          with sx have "size a < size c" by simp
          from less.IH[OF this ab] show "?U (flattened a) = ?U (flattened b)" .
        qed
        with True xc yc show ?thesis by (simp add: comp_def)
      next
        case False
        from less.IH[OF sx u] False xc yc show ?thesis by simp
      qed
    qed
    have "mset (map (\<lambda>x. mset (map ?U (?chunk x))) cs) = mset (map (\<lambda>x. mset (map ?U (?chunk x))) ds)"
      by (rule mset_map_transfer[OF m]) (rule K)
    then have "mset (map mset (map (\<lambda>x. map ?U (?chunk x)) cs))
        = mset (map mset (map (\<lambda>x. map ?U (?chunk x)) ds))" by (simp add: comp_def)
    then have "mset (concat (map (\<lambda>x. map ?U (?chunk x)) cs))
        = mset (concat (map (\<lambda>x. map ?U (?chunk x)) ds))" by (rule mset_concat_cong)
    then have "mset (map ?U (flattened_children op cs)) = mset (map ?U (flattened_children op ds))"
      by (simp add: flattened_children_concat map_concat comp_def)
    then have "mset (defined (map ?U (flattened_children op cs)))
        = mset (defined (map ?U (flattened_children op ds)))" by (rule mset_defined_cong)
    then have D: "mset (map unordered (defined (flattened_children op cs)))
        = mset (map unordered (defined (flattened_children op ds)))" by (simp add: defined_map)
    let ?X = "defined (flattened_children op cs)" and ?Z = "defined (flattened_children op ds)"
    from D have len: "length ?X = length ?Z" by (metis length_map size_mset)
    show ?thesis
    proof (cases ?X)
      case Nil
      with len have "?Z = []" by simp
      with Nil Conjunction d show ?thesis by simp
    next
      case (Cons a X')
      note X = this
      show ?thesis
      proof (cases X')
        case Nil
        with X len obtain b where Z: "?Z = [b]" by (cases ?Z) auto
        with X Nil D have "unordered a = unordered b" by simp
        with X Nil Z Conjunction d show ?thesis by simp
      next
        case (Cons a' X'')
        with X len obtain b b' Z'' where Z: "?Z = b # b' # Z''"
          by (cases ?Z; cases "tl ?Z") auto
        with X Cons D Conjunction d show ?thesis by simp
      qed
    qed
  qed
qed

section \<open>Normalization of the where clause, the \<open>select\<close> list and the \<open>groupBy\<close> list\<close>

lemma set_defined: "set (defined xs) = {x. Some x \<in> set xs}"
  by (induction xs rule: defined.induct) auto

lemma flattened_simple_conditions:
  "\<forall>c'. flattened c = Some c' \<longrightarrow> set (simple_conditions c') \<subseteq> set (simple_conditions c)"
  "\<forall>x \<in> set (defined (flattened_children op cs)). set (simple_conditions x) \<subseteq> (\<Union>c \<in> set cs. set (simple_conditions c))"
  "\<forall>x \<in> set (defined (flattened_each cs)). set (simple_conditions x) \<subseteq> (\<Union>c \<in> set cs. set (simple_conditions c))"
proof (induction c and op cs and cs rule: flattened_flattened_children_flattened_each.induct)
  case (1 op field v)
  then show ?case by simp
next
  case (2 op conds)
  show ?case
  proof (intro allI impI)
    fix c' assume f: "flattened (Conjunction op conds) = Some c'"
    show "set (simple_conditions c') \<subseteq> set (simple_conditions (Conjunction op conds))"
    proof (cases "defined (flattened_children op conds)")
      case Nil
      with f show ?thesis by simp
    next
      case (Cons a X)
      show ?thesis
      proof (cases X)
        case Nil
        with Cons f have "c' = a" by simp
        with Cons 2 show ?thesis by simp
      next
        case (Cons a' X')
        with \<open>defined (flattened_children op conds) = a # X\<close> f
        have "c' = Conjunction op (defined (flattened_children op conds))" by simp
        with 2 show ?thesis by auto
      qed
    qed
  qed
next
  case (3 op)
  then show ?case by simp
next
  case (4 op sop field v rest)
  then show ?case by auto
next
  case (5 op op' conds rest)
  show ?case
  proof
    fix x assume "x \<in> set (defined (flattened_children op (Conjunction op' conds # rest)))"
    then consider (a) "op' = op" "x \<in> set (defined (flattened_each conds))"
      | (b) "op' \<noteq> op" "flattened (Conjunction op' conds) = Some x"
      | (c) "x \<in> set (defined (flattened_children op rest))"
      by (auto simp: set_defined simp del: flattened.simps(2) split: if_splits)
    then show "set (simple_conditions x) \<subseteq> (\<Union>c \<in> set (Conjunction op' conds # rest). set (simple_conditions c))"
    proof cases
      case a
      with 5(1) show ?thesis by (simp del: flattened.simps(2)) blast
    next
      case b
      with 5(2) show ?thesis by (simp del: flattened.simps(2)) blast
    next
      case c
      with 5(3) show ?thesis by (simp del: flattened.simps(2)) blast
    qed
  qed
next
  case 6
  then show ?case by simp
next
  case (7 c cs)
  show ?case
  proof
    fix x assume "x \<in> set (defined (flattened_each (c # cs)))"
    then consider (a) "flattened c = Some x" | (b) "x \<in> set (defined (flattened_each cs))"
      by (auto simp: set_defined)
    then show "set (simple_conditions x) \<subseteq> (\<Union>c \<in> set (c # cs). set (simple_conditions c))"
    proof cases
      case a
      with 7(1) show ?thesis by simp blast
    next
      case b
      with 7(2) show ?thesis by simp blast
    qed
  qed
qed

lemma flattened_at_least_two:
  "\<forall>c'. flattened c = Some c' \<longrightarrow> at_least_two c'"
  "\<forall>x \<in> set (defined (flattened_children op cs)). at_least_two x"
  "\<forall>x \<in> set (defined (flattened_each cs)). at_least_two x"
proof (induction c and op cs and cs rule: flattened_flattened_children_flattened_each.induct)
  case (1 op field v)
  then show ?case by simp
next
  case (2 op conds)
  show ?case
  proof (intro allI impI)
    fix c' assume f: "flattened (Conjunction op conds) = Some c'"
    show "at_least_two c'"
    proof (cases "defined (flattened_children op conds)")
      case Nil
      with f show ?thesis by simp
    next
      case (Cons a X)
      show ?thesis
      proof (cases X)
        case Nil
        with Cons f have "c' = a" by simp
        with Cons 2 show ?thesis by simp
      next
        case (Cons a' X')
        with \<open>defined (flattened_children op conds) = a # X\<close> f
        have "c' = Conjunction op (a # a' # X')" by simp
        with 2 Cons \<open>defined (flattened_children op conds) = a # X\<close> show ?thesis by auto
      qed
    qed
  qed
next
  case (3 op)
  then show ?case by simp
next
  case (4 op sop field v rest)
  then show ?case by auto
next
  case (5 op op' conds rest)
  show ?case
  proof
    fix x assume "x \<in> set (defined (flattened_children op (Conjunction op' conds # rest)))"
    then consider (a) "op' = op" "x \<in> set (defined (flattened_each conds))"
      | (b) "op' \<noteq> op" "flattened (Conjunction op' conds) = Some x"
      | (c) "x \<in> set (defined (flattened_children op rest))"
      by (auto simp: set_defined simp del: flattened.simps(2) split: if_splits)
    then show "at_least_two x"
    proof cases
      case a
      with 5(1) show ?thesis by (simp del: flattened.simps(2))
    next
      case b
      with 5(2) show ?thesis by (simp del: flattened.simps(2))
    next
      case c
      with 5(3) show ?thesis by (simp del: flattened.simps(2))
    qed
  qed
next
  case 6
  then show ?case by simp
next
  case (7 c cs)
  show ?case
  proof
    fix x assume "x \<in> set (defined (flattened_each (c # cs)))"
    then consider (a) "flattened c = Some x" | (b) "x \<in> set (defined (flattened_each cs))"
      by (auto simp: set_defined)
    then show "at_least_two x"
    proof cases
      case a
      with 7(1) show ?thesis by simp
    next
      case b
      with 7(2) show ?thesis by simp
    qed
  qed
qed

lemma sorted_at_least_two: "at_least_two c \<Longrightarrow> at_least_two (sorted_condition c)"
  by (induction c) (auto simp: Array_sort_cmp)

lemma normalized_at_least_two:
  "ast_where (normalizeAST ast) = Some w \<Longrightarrow> at_least_two w"
proof -
  assume "ast_where (normalizeAST ast) = Some w"
  then obtain v c where "ast_where ast = Some v" "flattened v = Some c" "w = sorted_condition c"
    by (auto simp: normalizeAST_def flattened_opt_def split: option.splits)
  with flattened_at_least_two(1)[of v] show ?thesis by (simp add: sorted_at_least_two)
qed

lemma where_order_insensitive:
  assumes u: "unordered v = unordered w" and i: "inj_on compared_part (set (simple_conditions v))"
  shows "map_option sorted_condition (flattened v) = map_option sorted_condition (flattened w)"
proof -
  from flattened_unordered[OF u]
  have f: "map_option unordered (flattened v) = map_option unordered (flattened w)" .
  show ?thesis
  proof (cases "flattened v")
    case None
    with f show ?thesis by simp
  next
    case (Some a)
    with f obtain b where b: "flattened w = Some b" and ab: "unordered a = unordered b"
      by (cases "flattened w") auto
    from flattened_simple_conditions(1)[of v] Some
    have "set (simple_conditions a) \<subseteq> set (simple_conditions v)" by simp
    with i have "inj_on compared_part (set (simple_conditions a))" by (rule inj_on_subset)
    from sorted_unordered[OF ab this] Some b show ?thesis by simp
  qed
qed

lemma sort_mset_cong: "mset xs = mset ys \<Longrightarrow> sort xs = sort ys"
  by (rule properties_for_sort) simp_all

lemma Array_sort_select:
  "Array_sort (\<lambda>(a, x) (b, y). compareUTF8 a b) xs = sort_key fst xs"
  by (rule Array_sort_sort_key) (auto simp: compareUTF8_le)

lemma select_order_insensitive:
  assumes m: "mset s = mset t" and d: "distinct (map fst s)"
  shows "sort_key fst s = sort_key fst t"
proof (rule sort_key_inj_key_eq)
  show "mset s = mset (sort_key fst t)" using m by simp
  show "inj_on fst (set s)" using d by (simp add: distinct_map)
  show "sorted (map fst (sort_key fst t))" by simp
qed
section \<open>Claim C1: normalizing twice\<close>

text \<open>
  Claim C1. Normalization is claimed to be idempotent. \<open>flattened\<close> inlines the conditions
  of a conjunction with the operator of its parent, but flattens each inlined condition
  on its own, so a conjunction nested two levels deep with the same operator stays
  nested. For the where clause \<^verbatim>\<open>a = 1 AND (b = 2 AND (c = 3 AND d = 4))\<close> the first
  normalization yields \<^verbatim>\<open>a = 1 AND b = 2 AND (c = 3 AND d = 4)\<close>, the second
  \<^verbatim>\<open>a = 1 AND b = 2 AND c = 3 AND d = 4\<close>: normalizing the normalized AST changes it.
\<close>

theorem normalizeAST_not_idempotent:
  "ast_where (normalizeAST (ex_ast None (Some ex_nested) None)) =
     Some (Conjunction OpAND [ex_eq ''a'' 1, ex_eq ''b'' 2,
             Conjunction OpAND [ex_eq ''c'' 3, ex_eq ''d'' 4]])
   \<and> ast_where (normalizeAST (normalizeAST (ex_ast None (Some ex_nested) None))) =
     Some (Conjunction OpAND [ex_eq ''a'' 1, ex_eq ''b'' 2, ex_eq ''c'' 3, ex_eq ''d'' 4])
   \<and> normalizeAST (normalizeAST (ex_ast None (Some ex_nested) None))
     \<noteq> normalizeAST (ex_ast None (Some ex_nested) None)"
  by code_simp

section \<open>Claim C2: the normalized where clause\<close>

text \<open>Every conjunction of a normalized where clause has at least two conditions (lemma
  \<open>normalized_at_least_two\<close>): empty conjunctions are dropped and a conjunction with one
  condition is replaced by it.\<close>

text \<open>The example of the claim, \<^verbatim>\<open>TRUE\<close> being the empty conjunction:
  \<^verbatim>\<open>a = 1 AND (b = 2 AND TRUE)\<close> normalizes as \<^verbatim>\<open>a = 1 AND b = 2\<close> does.\<close>

lemma normalized_empty_filter:
  "normalizeAST (ex_ast None (Some (Conjunction OpAND [ex_eq ''a'' 1,
       Conjunction OpAND [ex_eq ''b'' 2, Conjunction OpAND []]])) None)
   = normalizeAST (ex_ast None (Some (Conjunction OpAND [ex_eq ''a'' 1, ex_eq ''b'' 2])) None)"
  by code_simp

text \<open>
  Claim C2. The normalized where clause is claimed to be fully flattened: no conjunction
  in it has a direct child conjunction with the same operator. For the where clause
  \<^verbatim>\<open>a = 1 AND (b = 2 AND (c = 3 AND d = 4))\<close>, \<open>flattened\<close> returns, and the normalized AST
  holds, \<^verbatim>\<open>a = 1 AND b = 2 AND (c = 3 AND d = 4)\<close>, an AND with a direct child AND.
\<close>

theorem normalized_where_not_fully_flattened:
  "flattened ex_nested =
     Some (Conjunction OpAND [ex_eq ''a'' 1, ex_eq ''b'' 2,
             Conjunction OpAND [ex_eq ''c'' 3, ex_eq ''d'' 4]])
   \<and> (\<exists>w. ast_where (normalizeAST (ex_ast None (Some ex_nested) None)) = Some w
         \<and> \<not> fully_flattened w)"
proof
  show "flattened ex_nested =
     Some (Conjunction OpAND [ex_eq ''a'' 1, ex_eq ''b'' 2,
             Conjunction OpAND [ex_eq ''c'' 3, ex_eq ''d'' 4]])"
    by code_simp
  have "ast_where (normalizeAST (ex_ast None (Some ex_nested) None)) =
     Some (Conjunction OpAND [ex_eq ''a'' 1, ex_eq ''b'' 2,
             Conjunction OpAND [ex_eq ''c'' 3, ex_eq ''d'' 4]])"
    by code_simp
  moreover have "\<not> fully_flattened (Conjunction OpAND [ex_eq ''a'' 1, ex_eq ''b'' 2,
             Conjunction OpAND [ex_eq ''c'' 3, ex_eq ''d'' 4]])"
    by (simp add: ex_eq_def)
  ultimately show "\<exists>w. ast_where (normalizeAST (ex_ast None (Some ex_nested) None)) = Some w
         \<and> \<not> fully_flattened w"
    by blast
qed

section \<open>Claim C3: ASTs that differ in the grouping or the order of their parts\<close>

text \<open>What normalization does identify. Let \<open>A\<close> and \<open>B\<close> be ASTs with the same table,
  alias, aggregations, limit and ordering, whose \<open>groupBy\<close> lists are permutations of
  each other, whose \<open>select\<close> lists are permutations of each other with pairwise distinct
  selectors, and whose where clauses differ only in the order of the conditions of their
  conjunctions, no two distinct simple conditions of the clause agreeing on field,
  operator and string form of the literal. Then \<open>normalizeAST A = normalizeAST B\<close>.\<close>

lemma normalizeAST_order_insensitive:
  "differ_in_order_only A B \<Longrightarrow> normalizeAST A = normalizeAST B"
proof -
  assume d: "differ_in_order_only A B"
  have g: "map_option (Array_sort compareUTF8) (ast_groupBy A)
      = map_option (Array_sort compareUTF8) (ast_groupBy B)"
    using d unfolding differ_in_order_only_def
    by (cases "ast_groupBy A"; cases "ast_groupBy B")
      (auto simp: Array_sort_compareUTF8 intro: sort_mset_cong)
  have s: "map_option (Array_sort (\<lambda>(a, x) (b, y). compareUTF8 a b)) (ast_select A)
      = map_option (Array_sort (\<lambda>(a, x) (b, y). compareUTF8 a b)) (ast_select B)"
    using d unfolding differ_in_order_only_def
    by (cases "ast_select A"; cases "ast_select B")
      (auto simp: Array_sort_select intro: select_order_insensitive)
  have w: "map_option sorted_condition (flattened_opt (ast_where A))
      = map_option sorted_condition (flattened_opt (ast_where B))"
    using d unfolding differ_in_order_only_def flattened_opt_def
    by (cases "ast_where A"; cases "ast_where B") (auto intro: where_order_insensitive)
  from d have "ast_table A = ast_table B" "ast_alias A = ast_alias B"
    "ast_aggregate A = ast_aggregate B" "ast_limit A = ast_limit B"
    "ast_orderBy A = ast_orderBy B"
    unfolding differ_in_order_only_def by simp_all
  with g s w show ?thesis by (simp add: normalizeAST_def)
qed

lemma normalizeAST_order_insensitive_example:
  "differ_in_order_only ex_order_a ex_order_b
   \<and> normalizeAST ex_order_a = normalizeAST ex_order_b
   \<and> ast_where (normalizeAST ex_order_a)
       = Some (Conjunction OpAND [ex_eq ''a'' 1, ex_eq ''b'' 2,
                 Conjunction OpOR [ex_eq ''c'' 3, ex_eq ''d'' 4]])"
proof -
  have d: "differ_in_order_only ex_order_a ex_order_b"
    by (simp add: differ_in_order_only_def ex_order_a_def ex_order_b_def ex_eq_def
        compared_part_def isSafeInteger_def del: String_of.simps)
  have "ast_where (normalizeAST ex_order_a)
       = Some (Conjunction OpAND [ex_eq ''a'' 1, ex_eq ''b'' 2,
                 Conjunction OpOR [ex_eq ''c'' 3, ex_eq ''d'' 4]])"
    by code_simp
  with d normalizeAST_order_insensitive[of ex_order_a ex_order_b] show ?thesis by simp
qed

text \<open>Regrouping one level deep is undone: \<^verbatim>\<open>(a = 1 AND b = 2) AND c = 3\<close> and
  \<^verbatim>\<open>a = 1 AND (b = 2 AND c = 3)\<close> normalize as \<^verbatim>\<open>a = 1 AND b = 2 AND c = 3\<close> does.\<close>

lemma normalizeAST_one_level_regrouping:
  "normalizeAST (ex_ast None (Some (Conjunction OpAND
       [Conjunction OpAND [ex_eq ''a'' 1, ex_eq ''b'' 2], ex_eq ''c'' 3])) None)
     = normalizeAST (ex_ast None (Some (Conjunction OpAND
       [ex_eq ''a'' 1, ex_eq ''b'' 2, ex_eq ''c'' 3])) None)
   \<and> normalizeAST (ex_ast None (Some (Conjunction OpAND
       [ex_eq ''a'' 1, Conjunction OpAND [ex_eq ''b'' 2, ex_eq ''c'' 3]])) None)
     = normalizeAST (ex_ast None (Some (Conjunction OpAND
       [ex_eq ''a'' 1, ex_eq ''b'' 2, ex_eq ''c'' 3])) None)"
  by code_simp

text \<open>Conditions are not deduplicated, and the sort is stable: two conditions that
  differ only in literals with the same string form (the number 1 and the string
  \<^verbatim>\<open>'1'\<close>), and two \<open>select\<close> entries with the same selector, keep their input order.\<close>

lemma normalizeAST_keeps_duplicates_and_ties:
  "ast_where (normalizeAST (ex_ast None
       (Some (Conjunction OpAND [ex_eq ''a'' 1, ex_eq ''a'' 1])) None))
     = Some (Conjunction OpAND [ex_eq ''a'' 1, ex_eq ''a'' 1])
   \<and> ast_where (normalizeAST (ex_ast None (Some (ex_eq ''a'' 1)) None))
     = Some (ex_eq ''a'' 1)
   \<and> normalizeAST (ex_ast None (Some (Conjunction OpAND
        [Simple OpEq ''a'' (PNumber (Finite 1)), Simple OpEq ''a'' (PString ''1'')])) None)
     \<noteq> normalizeAST (ex_ast None (Some (Conjunction OpAND
        [Simple OpEq ''a'' (PString ''1''), Simple OpEq ''a'' (PNumber (Finite 1))])) None)
   \<and> normalizeAST ((ex_ast None None None)\<lparr>ast_select := Some [(''a'', ''x''), (''a'', ''y'')]\<rparr>)
     \<noteq> normalizeAST ((ex_ast None None None)\<lparr>ast_select := Some [(''a'', ''y''), (''a'', ''x'')]\<rparr>)"
  by code_simp

text \<open>
  Claim C3. ASTs that differ only in the associativity of their where-clause conditions
  are claimed to normalize identically. \<^verbatim>\<open>a = 1 AND (b = 2 AND (c = 3 AND d = 4))\<close> and
  \<^verbatim>\<open>a = 1 AND b = 2 AND c = 3 AND d = 4\<close> differ only in the grouping of the same
  conjunction, and so do \<^verbatim>\<open>a = 1 AND (b = 2 AND (c = 3 AND d = 4))\<close> and
  \<^verbatim>\<open>(a = 1 AND b = 2) AND (c = 3 AND d = 4)\<close>. \<open>flattened\<close> undoes the grouping one level
  deep only: the first normalizes to \<^verbatim>\<open>a = 1 AND b = 2 AND (c = 3 AND d = 4)\<close>, the other
  two to \<^verbatim>\<open>a = 1 AND b = 2 AND c = 3 AND d = 4\<close>.
\<close>

theorem normalizeAST_regrouping_differs:
  "ast_where (normalizeAST (ex_ast None (Some ex_nested) None))
     = Some (Conjunction OpAND [ex_eq ''a'' 1, ex_eq ''b'' 2,
               Conjunction OpAND [ex_eq ''c'' 3, ex_eq ''d'' 4]])
   \<and> ast_where (normalizeAST (ex_ast None (Some (Conjunction OpAND
        [ex_eq ''a'' 1, ex_eq ''b'' 2, ex_eq ''c'' 3, ex_eq ''d'' 4])) None))
     = Some (Conjunction OpAND [ex_eq ''a'' 1, ex_eq ''b'' 2, ex_eq ''c'' 3, ex_eq ''d'' 4])
   \<and> ast_where (normalizeAST (ex_ast None (Some (Conjunction OpAND
        [Conjunction OpAND [ex_eq ''a'' 1, ex_eq ''b'' 2],
         Conjunction OpAND [ex_eq ''c'' 3, ex_eq ''d'' 4]])) None))
     = Some (Conjunction OpAND [ex_eq ''a'' 1, ex_eq ''b'' 2, ex_eq ''c'' 3, ex_eq ''d'' 4])
   \<and> normalizeAST (ex_ast None (Some ex_nested) None)
     \<noteq> normalizeAST (ex_ast None (Some (Conjunction OpAND
        [ex_eq ''a'' 1, ex_eq ''b'' 2, ex_eq ''c'' 3, ex_eq ''d'' 4])) None)
   \<and> normalizeAST (ex_ast None (Some ex_nested) None)
     \<noteq> normalizeAST (ex_ast None (Some (Conjunction OpAND
        [Conjunction OpAND [ex_eq ''a'' 1, ex_eq ''b'' 2],
         Conjunction OpAND [ex_eq ''c'' 3, ex_eq ''d'' 4]])) None)"
  by code_simp

section \<open>Claim C4: cleanup of a parent and the child subtree that a sibling still needs\<close>

text \<open>What \<open>processParentNode\<close> does in \<open>cleanup\<close> mode. The child stream attached under
  the relationship name is pulled with \<open>fetch\<close> when the scan of the storage under the
  prefix of the parent's join value has at least two entries, and with \<open>cleanup\<close>
  otherwise; the parent's own storage entry is deleted and no other entry changes. So,
  when the parent's own entry is recorded and a sibling entry with the same join value
  and a different key is recorded too, the child is not pulled in \<open>cleanup\<close> mode; and
  when the keys are distinct and no key but the parent's own has the prefix, it is. In
  the scenario of two parents sharing the join value \<^verbatim>\<open>u1\<close>, fetching records both
  entries; the cleanup then handles the first parent with a \<open>fetch\<close> of the child and the
  second with a \<open>cleanup\<close>, and leaves the storage empty.\<close>

lemma Join_cleanup_shared_child:
  "(\<forall>n' st'. processParentNode j st n cleanup = (n', st') \<longrightarrow>
      row n' = row n
    \<and> map_of (relationships n') (relationshipName j) =
        Some (Pull (if 2 \<le> length (storage_scan st
                        (createPrimaryKeySetStorageKeyPrefix (parentKeyValue_of j n)))
                    then fetch else cleanup)
               \<lparr>req_constraint = Some \<lparr>c_key = childKey j, c_value = Some (parentKeyValue_of j n)\<rparr>\<rparr>)
    \<and> st' = storage_del st (storageKey_of j n)
    \<and> storageKey_of j n \<notin> fst ` set st'
    \<and> (\<forall>k. k \<noteq> storageKey_of j n \<longrightarrow> map_of st' k = map_of st k)
    \<and> (storageKey_of j n \<in> fst ` set st \<longrightarrow>
         (\<forall>pk. createPrimaryKeySetStorageKey (parentKeyValue_of j n # pk) \<in> fst ` set st
             \<and> createPrimaryKeySetStorageKey (parentKeyValue_of j n # pk) \<noteq> storageKey_of j n
             \<longrightarrow> child_method j n' = Some fetch))
    \<and> (distinct (map fst st)
         \<and> (\<forall>k \<in> fst ` set st.
               prefix (createPrimaryKeySetStorageKeyPrefix (parentKeyValue_of j n)) k
               \<longrightarrow> k = storageKey_of j n)
         \<longrightarrow> child_method j n' = Some cleanup))
   \<and> Join_fetch ex_join (Source [ex_parent1, ex_parent2]) [] \<lparr>req_constraint = None\<rparr> =
        ([\<lparr>row = ex_parent1, relationships = [(''comments'', Pull fetch ex_child_request)]\<rparr>,
          \<lparr>row = ex_parent2, relationships = [(''comments'', Pull fetch ex_child_request)]\<rparr>],
         [(createPrimaryKeySetStorageKey [PString ''u1'', PString ''i2''], True),
          (createPrimaryKeySetStorageKey [PString ''u1'', PString ''i1''], True)])
   \<and> Join_cleanup ex_join (Source [ex_parent1, ex_parent2])
        [(createPrimaryKeySetStorageKey [PString ''u1'', PString ''i2''], True),
         (createPrimaryKeySetStorageKey [PString ''u1'', PString ''i1''], True)]
        \<lparr>req_constraint = None\<rparr> =
        ([\<lparr>row = ex_parent1, relationships = [(''comments'', Pull fetch ex_child_request)]\<rparr>,
          \<lparr>row = ex_parent2, relationships = [(''comments'', Pull cleanup ex_child_request)]\<rparr>],
         [])"
proof (intro conjI allI impI)
  fix n' st'
  assume p: "processParentNode j st n cleanup = (n', st')"
  let ?v = "parentKeyValue_of j n"
  let ?m = "if 2 \<le> length (storage_scan st (createPrimaryKeySetStorageKeyPrefix ?v)) then fetch else cleanup"
  let ?r = "\<lparr>req_constraint = Some \<lparr>c_key = childKey j, c_value = Some ?v\<rparr>\<rparr>"
  from p have n': "n' = n\<lparr>relationships := object_set (relationships n) (relationshipName j) (Pull ?m ?r)\<rparr>"
    and st': "st' = storage_del st (storageKey_of j n)"
    by (simp_all add: processParentNode_cleanup)
  show "row n' = row n" by (simp add: n')
  show "map_of (relationships n') (relationshipName j) = Some (Pull ?m ?r)"
    by (simp add: n' map_of_object_set)
  show "st' = storage_del st (storageKey_of j n)" by (rule st')
  show "storageKey_of j n \<notin> fst ` set st'" by (simp add: st' storage_del_keys)
  { fix k assume "k \<noteq> storageKey_of j n"
    then show "map_of st' k = map_of st k" by (simp add: st' storage_del_map_of) }
  have cm: "child_method j n' = Some ?m" unfolding n' by (rule child_method_object_set)
  { fix pk
    assume own: "storageKey_of j n \<in> fst ` set st"
      and sib: "createPrimaryKeySetStorageKey (?v # pk) \<in> fst ` set st
        \<and> createPrimaryKeySetStorageKey (?v # pk) \<noteq> storageKey_of j n"
    have "prefix (createPrimaryKeySetStorageKeyPrefix ?v) (storageKey_of j n)"
      unfolding storageKey_of_def by (rule key_prefix_own)
    moreover have "prefix (createPrimaryKeySetStorageKeyPrefix ?v) (createPrimaryKeySetStorageKey (?v # pk))"
      by (rule key_prefix_own)
    ultimately have "2 \<le> length (storage_scan st (createPrimaryKeySetStorageKeyPrefix ?v))"
      using own sib by (intro two_entries[of "storageKey_of j n" st "createPrimaryKeySetStorageKey (?v # pk)"]) auto
    with cm show "child_method j n' = Some fetch" by simp }
  { assume "distinct (map fst st)
         \<and> (\<forall>k \<in> fst ` set st.
               prefix (createPrimaryKeySetStorageKeyPrefix ?v) k \<longrightarrow> k = storageKey_of j n)"
    then have "\<not> 2 \<le> length (storage_scan st (createPrimaryKeySetStorageKeyPrefix ?v))"
      by (intro only_own_entry[of st _ "storageKey_of j n"]) auto
    with cm show "child_method j n' = Some cleanup" by simp }
next
  show "Join_fetch ex_join (Source [ex_parent1, ex_parent2]) [] \<lparr>req_constraint = None\<rparr> =
        ([\<lparr>row = ex_parent1, relationships = [(''comments'', Pull fetch ex_child_request)]\<rparr>,
          \<lparr>row = ex_parent2, relationships = [(''comments'', Pull fetch ex_child_request)]\<rparr>],
         [(createPrimaryKeySetStorageKey [PString ''u1'', PString ''i2''], True),
          (createPrimaryKeySetStorageKey [PString ''u1'', PString ''i1''], True)])"
    by (simp add: Join_fetch_def Source_def Source_fetch_def processParentNode_fetch
        parentKeyValue_of_def storageKey_of_def ex_join_def ex_parent1_def ex_parent2_def
        ex_child_request_def row_get_def normalizeUndefined_def storage_set_def key_form
        QuoteJSONString_def QuoteJSONChar_def)
next
  show "Join_cleanup ex_join (Source [ex_parent1, ex_parent2])
        [(createPrimaryKeySetStorageKey [PString ''u1'', PString ''i2''], True),
         (createPrimaryKeySetStorageKey [PString ''u1'', PString ''i1''], True)]
        \<lparr>req_constraint = None\<rparr> =
        ([\<lparr>row = ex_parent1, relationships = [(''comments'', Pull fetch ex_child_request)]\<rparr>,
          \<lparr>row = ex_parent2, relationships = [(''comments'', Pull cleanup ex_child_request)]\<rparr>],
         [])"
    by (simp add: Join_cleanup_def Source_def Source_fetch_def processParentNode_cleanup
        parentKeyValue_of_def storageKey_of_def ex_join_def ex_parent1_def ex_parent2_def
        ex_child_request_def row_get_def normalizeUndefined_def storage_del_def storage_scan_def
        createPrimaryKeySetStorageKeyPrefix_def key_form
        QuoteJSONString_def QuoteJSONChar_def)
qed

lemma Join_cleanup_shared_child_example:
  "child_method ex_join (fst (processParentNode ex_join
       [(createPrimaryKeySetStorageKey [PString ''u1'', PString ''i2''], True),
        (createPrimaryKeySetStorageKey [PString ''u1'', PString ''i1''], True)]
       \<lparr>row = ex_parent1, relationships = []\<rparr> cleanup)) = Some fetch
   \<and> child_method ex_join (fst (processParentNode ex_join
       [(createPrimaryKeySetStorageKey [PString ''u1'', PString ''i2''], True)]
       \<lparr>row = ex_parent2, relationships = []\<rparr> cleanup)) = Some cleanup"
proof
  let ?k1 = "createPrimaryKeySetStorageKey [PString ''u1'', PString ''i1'']"
  let ?k2 = "createPrimaryKeySetStorageKey [PString ''u1'', PString ''i2'']"
  let ?st = "[(?k2, True), (?k1, True)]"
  let ?n = "\<lparr>row = ex_parent1, relationships = []\<rparr>"
  have v: "parentKeyValue_of ex_join ?n = PString ''u1''"
    by (simp add: parentKeyValue_of_def ex_join_def ex_parent1_def row_get_def normalizeUndefined_def)
  have k: "storageKey_of ex_join ?n = ?k1"
    by (simp add: storageKey_of_def parentKeyValue_of_def ex_join_def ex_parent1_def row_get_def normalizeUndefined_def)
  have ne: "?k2 \<noteq> ?k1"
    by (simp add: key_form QuoteJSONString_def QuoteJSONChar_def)
  obtain n' st' where p: "processParentNode ex_join ?st ?n cleanup = (n', st')" by force
  from Join_cleanup_shared_child [of ex_join ?st ?n] p
  have c: "storageKey_of ex_join ?n \<in> fst ` set ?st \<longrightarrow>
         (\<forall>pk. createPrimaryKeySetStorageKey (parentKeyValue_of ex_join ?n # pk) \<in> fst ` set ?st
             \<and> createPrimaryKeySetStorageKey (parentKeyValue_of ex_join ?n # pk) \<noteq> storageKey_of ex_join ?n
             \<longrightarrow> child_method ex_join n' = Some fetch)" by blast
  have h1: "storageKey_of ex_join ?n \<in> fst ` set ?st" by (simp add: k)
  have h2: "createPrimaryKeySetStorageKey (parentKeyValue_of ex_join ?n # [PString ''i2'']) \<in> fst ` set ?st
      \<and> createPrimaryKeySetStorageKey (parentKeyValue_of ex_join ?n # [PString ''i2'']) \<noteq> storageKey_of ex_join ?n"
    using ne by (simp add: k v)
  from c h1 h2 have "child_method ex_join n' = Some fetch" by blast
  with p show "child_method ex_join (fst (processParentNode ex_join ?st ?n cleanup)) = Some fetch"
    by (simp only: fst_conv)
next
  let ?k2 = "createPrimaryKeySetStorageKey [PString ''u1'', PString ''i2'']"
  let ?st = "[(?k2, True)]"
  let ?n = "\<lparr>row = ex_parent2, relationships = []\<rparr>"
  have v: "parentKeyValue_of ex_join ?n = PString ''u1''"
    by (simp add: parentKeyValue_of_def ex_join_def ex_parent2_def row_get_def normalizeUndefined_def)
  have k: "storageKey_of ex_join ?n = ?k2"
    by (simp add: storageKey_of_def parentKeyValue_of_def ex_join_def ex_parent2_def row_get_def normalizeUndefined_def)
  obtain n' st' where p: "processParentNode ex_join ?st ?n cleanup = (n', st')" by force
  from Join_cleanup_shared_child [of ex_join ?st ?n] p
  have c: "distinct (map fst ?st)
         \<and> (\<forall>k \<in> fst ` set ?st.
               prefix (createPrimaryKeySetStorageKeyPrefix (parentKeyValue_of ex_join ?n)) k
               \<longrightarrow> k = storageKey_of ex_join ?n)
         \<longrightarrow> child_method ex_join n' = Some cleanup" by blast
  have h: "distinct (map fst ?st)
         \<and> (\<forall>k \<in> fst ` set ?st.
               prefix (createPrimaryKeySetStorageKeyPrefix (parentKeyValue_of ex_join ?n)) k
               \<longrightarrow> k = storageKey_of ex_join ?n)" by (simp add: k)
  from c h have "child_method ex_join n' = Some cleanup" by blast
  with p show "child_method ex_join (fst (processParentNode ex_join ?st ?n cleanup)) = Some cleanup"
    by (simp only: fst_conv)
qed

text \<open>
  Claim C4. Every parent node processed in \<open>cleanup\<close> mode is claimed to pull the child
  in \<open>cleanup\<close> mode only if no sibling parent with the same join value still holds the
  constraint. The test counts the entries under the prefix, the parent's own included,
  and \<open>push\<close> processes every \<open>remove\<close> of the parent in \<open>cleanup\<close> mode, whether the
  removed node was recorded or not. Two parents share the join value \<^verbatim>\<open>u1\<close>; a fetch
  that asks for the first parent records it alone. When the parent then pushes the
  removal of the second, the scan finds one entry, that of the first parent, and the
  child is pulled in \<open>cleanup\<close> mode for \<^verbatim>\<open>u1\<close> although the first parent is still recorded.
\<close>

theorem Join_remove_unrecorded_parent:
  "Join_fetch ex_join (Source [ex_parent1, ex_parent2]) [] ex_parent1_request =
     ([\<lparr>row = ex_parent1, relationships = [(''comments'', Pull fetch ex_child_request)]\<rparr>],
      [(createPrimaryKeySetStorageKey [PString ''u1'', PString ''i1''], True)])
   \<and> Join_push ex_join (Source [ex_parent1])
        [(createPrimaryKeySetStorageKey [PString ''u1'', PString ''i1''], True)]
        (RemoveChange \<lparr>row = ex_parent2, relationships = []\<rparr>) from_parent =
      Inr ([RemoveChange
             \<lparr>row = ex_parent2, relationships = [(''comments'', Pull cleanup ex_child_request)]\<rparr>],
           [(createPrimaryKeySetStorageKey [PString ''u1'', PString ''i1''], True)])
   \<and> storage_scan [(createPrimaryKeySetStorageKey [PString ''u1'', PString ''i1''], True)]
        (createPrimaryKeySetStorageKeyPrefix (PString ''u1'')) =
      [(createPrimaryKeySetStorageKey [PString ''u1'', PString ''i1''], True)]"
proof (intro conjI)
  show "Join_fetch ex_join (Source [ex_parent1, ex_parent2]) [] ex_parent1_request =
     ([\<lparr>row = ex_parent1, relationships = [(''comments'', Pull fetch ex_child_request)]\<rparr>],
      [(createPrimaryKeySetStorageKey [PString ''u1'', PString ''i1''], True)])"
    by (simp add: Join_fetch_def Source_def Source_fetch_def processParentNode_fetch
        parentKeyValue_of_def storageKey_of_def ex_join_def ex_parent1_def ex_parent2_def
        ex_child_request_def ex_parent1_request_def row_get_def normalizeUndefined_def
        storage_set_def)
  show "Join_push ex_join (Source [ex_parent1])
        [(createPrimaryKeySetStorageKey [PString ''u1'', PString ''i1''], True)]
        (RemoveChange \<lparr>row = ex_parent2, relationships = []\<rparr>) from_parent =
      Inr ([RemoveChange
             \<lparr>row = ex_parent2, relationships = [(''comments'', Pull cleanup ex_child_request)]\<rparr>],
           [(createPrimaryKeySetStorageKey [PString ''u1'', PString ''i1''], True)])"
    by (simp add: Join_push_def processParentNode_cleanup
        parentKeyValue_of_def storageKey_of_def ex_join_def ex_parent2_def
        ex_child_request_def row_get_def normalizeUndefined_def storage_del_def storage_scan_def
        createPrimaryKeySetStorageKeyPrefix_def key_form
        QuoteJSONString_def QuoteJSONChar_def)
  show "storage_scan [(createPrimaryKeySetStorageKey [PString ''u1'', PString ''i1''], True)]
        (createPrimaryKeySetStorageKeyPrefix (PString ''u1'')) =
      [(createPrimaryKeySetStorageKey [PString ''u1'', PString ''i1''], True)]"
    by (simp add: storage_scan_def createPrimaryKeySetStorageKeyPrefix_def key_form
        QuoteJSONString_def QuoteJSONChar_def)
qed

section \<open>Claim C5: a change from the child input becomes one child change per matching parent\<close>

text \<open>
  Claim C5. For every change pushed into a Join (whose output is set) from its child
  input, the Join fetches the parent input with the constraint whose key is
  \<open>parentKey\<close> and whose value is the \<open>childKey\<close> column of the child row, and pushes, for
  each parent node returned and in that order, exactly one child change rooted at the
  parent's row that wraps the original change under \<open>relationshipName\<close>; the storage is
  left as it is. With the two parents of the scenario sharing the join value of the
  inserted child, exactly two child changes are pushed, one per parent row.
\<close>

theorem Join_push_from_child:
  "(output_set j \<longrightarrow>
     (\<exists>out. Join_push j parent st chg from_child = Inr (out, st)
        \<and> length out = length (input_fetch parent
              \<lparr>req_constraint = Some \<lparr>c_key = parentKey j,
                 c_value = row_get (case chg of ChildChange r name c \<Rightarrow> r
                     | AddChange n \<Rightarrow> row n | RemoveChange n \<Rightarrow> row n) (childKey j)\<rparr>\<rparr>)
        \<and> (\<forall>i < length out. out ! i =
              ChildChange (row (input_fetch parent
                \<lparr>req_constraint = Some \<lparr>c_key = parentKey j,
                   c_value = row_get (case chg of ChildChange r name c \<Rightarrow> r
                     | AddChange n \<Rightarrow> row n | RemoveChange n \<Rightarrow> row n) (childKey j)\<rparr>\<rparr> ! i))
                (relationshipName j) chg)))
   \<and> Join_push ex_join (Source [ex_parent1, ex_parent2]) []
        (AddChange \<lparr>row = ex_child, relationships = []\<rparr>) from_child =
      Inr ([ChildChange ex_parent1 ''comments'' (AddChange \<lparr>row = ex_child, relationships = []\<rparr>),
            ChildChange ex_parent2 ''comments'' (AddChange \<lparr>row = ex_child, relationships = []\<rparr>)],
           [])"
proof (intro conjI impI)
  assume "output_set j"
  then show "\<exists>out. Join_push j parent st chg from_child = Inr (out, st)
        \<and> length out = length (input_fetch parent
              \<lparr>req_constraint = Some \<lparr>c_key = parentKey j,
                 c_value = row_get (case chg of ChildChange r name c \<Rightarrow> r
                     | AddChange n \<Rightarrow> row n | RemoveChange n \<Rightarrow> row n) (childKey j)\<rparr>\<rparr>)
        \<and> (\<forall>i < length out. out ! i =
              ChildChange (row (input_fetch parent
                \<lparr>req_constraint = Some \<lparr>c_key = parentKey j,
                   c_value = row_get (case chg of ChildChange r name c \<Rightarrow> r
                     | AddChange n \<Rightarrow> row n | RemoveChange n \<Rightarrow> row n) (childKey j)\<rparr>\<rparr> ! i))
                (relationshipName j) chg)"
    by (simp add: Join_push_def Let_def)
next
  show "Join_push ex_join (Source [ex_parent1, ex_parent2]) []
        (AddChange \<lparr>row = ex_child, relationships = []\<rparr>) from_child =
      Inr ([ChildChange ex_parent1 ''comments'' (AddChange \<lparr>row = ex_child, relationships = []\<rparr>),
            ChildChange ex_parent2 ''comments'' (AddChange \<lparr>row = ex_child, relationships = []\<rparr>)],
           [])"
    by (simp add: Join_push_def Let_def Source_def Source_fetch_def ex_join_def ex_parent1_def
        ex_parent2_def ex_child_def row_get_def)
qed

theorem Join_push_from_child_witness:
  "output_set ex_join
   \<and> (\<exists>out. Join_push ex_join (Source [ex_parent1, ex_parent2]) []
          (RemoveChange \<lparr>row = ex_child, relationships = []\<rparr>) from_child = Inr (out, [])
        \<and> length out = 2
        \<and> out ! 0 = ChildChange ex_parent1 ''comments''
             (RemoveChange \<lparr>row = ex_child, relationships = []\<rparr>)
        \<and> out ! 1 = ChildChange ex_parent2 ''comments''
             (RemoveChange \<lparr>row = ex_child, relationships = []\<rparr>))"
proof -
  let ?chg = "RemoveChange \<lparr>row = ex_child, relationships = []\<rparr>"
  let ?par = "Source [ex_parent1, ex_parent2]"
  have h: "output_set ex_join" by (simp add: ex_join_def)
  have f: "input_fetch ?par
       \<lparr>req_constraint = Some \<lparr>c_key = parentKey ex_join,
          c_value = row_get (case ?chg of ChildChange r name c \<Rightarrow> r
              | AddChange n \<Rightarrow> row n | RemoveChange n \<Rightarrow> row n) (childKey ex_join)\<rparr>\<rparr>
      = [\<lparr>row = ex_parent1, relationships = []\<rparr>, \<lparr>row = ex_parent2, relationships = []\<rparr>]"
    by (simp add: Source_def Source_fetch_def ex_join_def ex_parent1_def ex_parent2_def
        ex_child_def row_get_def)
  have r: "relationshipName ex_join = ''comments''" by (simp add: ex_join_def)
  from Join_push_from_child [of ex_join ?par "[]" ?chg] h
  obtain out where o: "Join_push ex_join ?par [] ?chg from_child = Inr (out, [])"
    and l: "length out = 2"
    and a: "\<forall>i < length out. out ! i = ChildChange
        (row ([\<lparr>row = ex_parent1, relationships = []\<rparr>, \<lparr>row = ex_parent2, relationships = []\<rparr>] ! i))
        ''comments'' ?chg"
    unfolding f r by auto
  from a l have "out ! 0 = ChildChange ex_parent1 ''comments'' ?chg"
    "out ! 1 = ChildChange ex_parent2 ''comments'' ?chg" by auto
  with h o l show ?thesis by blast
qed

section \<open>Claim C6: what the compiled LIKE predicate matches\<close>

text \<open>
  On inputs without line terminators the compiled predicate is the matcher that the
  claim describes (lemma \<open>getLikeOp_like_matches\<close>): anchored, \<^verbatim>\<open>%\<close> for any string, \<^verbatim>\<open>_\<close>
  for one character, escaped and other characters literal, up to case for ILIKE. The
  examples of the claim hold.
\<close>

lemma atoms_match_literals:
  "atoms_match False (map (token_atom \<circ> Literal) p) s \<longleftrightarrow> s = p"
proof (induction p arbitrary: s)
  case Nil
  then show ?case by simp
next
  case (Cons l p)
  then show ?case by (cases s) (auto simp: token_simps atom_matches_def)
qed

lemma LIKE_examples:
  "(\<exists>f. getLikeOp (PString [CHR ''f'', CHR ''o'', CHR ''o'', CHR 0x5C, CHR ''%'', CHR ''b'', CHR ''a'', CHR ''r'']) NoFlag = Inr f
        \<and> (\<forall>s. f s \<longleftrightarrow> s = ''foo%bar''))
   \<and> (\<exists>f. getLikeOp (PString ''f_o%'') NoFlag = Inr f
        \<and> f ''fXo'' \<and> f ''foobar'' \<and> \<not> f ''fo'')"
proof
  have "like_tokens [CHR ''f'', CHR ''o'', CHR ''o'', CHR 0x5C, CHR ''%'', CHR ''b'', CHR ''a'', CHR ''r'']
      = Some (map Literal ''foo%bar'')" by simp
  then show "\<exists>f. getLikeOp (PString [CHR ''f'', CHR ''o'', CHR ''o'', CHR 0x5C, CHR ''%'', CHR ''b'', CHR ''a'', CHR ''r'']) NoFlag = Inr f
        \<and> (\<forall>s. f s \<longleftrightarrow> s = ''foo%bar'')"
    by (simp add: getLikeOp_string has_wildcard_or_escape_def atoms_match_literals
        del: like_tokens.simps list.map)
next
  show "\<exists>f. getLikeOp (PString ''f_o%'') NoFlag = Inr f \<and> f ''fXo'' \<and> f ''foobar'' \<and> \<not> f ''fo''"
    by (simp add: getLikeOp_string has_wildcard_or_escape_def token_simps atom_matches_def
        is_line_terminator_def)
qed

text \<open>
  Claim C6 (not met by the code). The claim has \<^verbatim>\<open>%\<close> match any number of characters
  and \<^verbatim>\<open>_\<close> exactly one character. The regular expression is built without the
  \<^verbatim>\<open>s\<close> flag, so \<^verbatim>\<open>.\<close> does not match a line terminator: the predicate of the pattern
  \<^verbatim>\<open>a%\<close> accepts \<^verbatim>\<open>a\<close> and \<^verbatim>\<open>abc\<close> but rejects the string of \<^verbatim>\<open>a\<close>, a line feed and \<^verbatim>\<open>b\<close>,
  and the predicate of \<^verbatim>\<open>a_c\<close> accepts \<^verbatim>\<open>abc\<close> but rejects \<^verbatim>\<open>a\<close>, line feed, \<^verbatim>\<open>c\<close>; the
  reading of the patterns that the claim describes accepts both strings.
\<close>

theorem LIKE_wildcard_rejects_line_feed:
  "(\<exists>f. getLikeOp (PString ''a%'') NoFlag = Inr f
        \<and> f ''a'' \<and> f ''abc'' \<and> \<not> f [CHR ''a'', CHR 0x0A, CHR ''b''])
   \<and> (\<exists>f. getLikeOp (PString ''a_c'') NoFlag = Inr f
        \<and> f ''abc'' \<and> \<not> f [CHR ''a'', CHR 0x0A, CHR ''c''])
   \<and> like_tokens ''a%'' = Some [Literal (CHR ''a''), AnyString]
   \<and> like_matches False [Literal (CHR ''a''), AnyString] [CHR ''a'', CHR 0x0A, CHR ''b'']
   \<and> like_tokens ''a_c'' = Some [Literal (CHR ''a''), AnyOne, Literal (CHR ''c'')]
   \<and> like_matches False [Literal (CHR ''a''), AnyOne, Literal (CHR ''c'')]
         [CHR ''a'', CHR 0x0A, CHR ''c'']"
  by (simp add: getLikeOp_string has_wildcard_or_escape_def token_simps atom_matches_def
      is_line_terminator_def same_char_def)

section \<open>Claim C7: a LIKE pattern with a dangling escape is rejected when the predicate is compiled\<close>

text \<open>
  Claim C7 (amended). For each of the operators LIKE, NOT LIKE, ILIKE and NOT ILIKE and
  every pattern that is a string, \<open>getOperator\<close> throws if and only if the pattern ends
  with a dangling escape character, and the error is the one of \<open>patternToRegExp\<close>.
  Otherwise it returns a predicate, a total function on strings. The error arises while
  the pipeline is built: \<open>buildPipeline\<close> fails for every AST whose where clause contains
  such a condition, whatever the rest of the AST is; no row is involved. For a pattern
  that is not a string (a safe value), \<open>getOperator\<close> throws exactly for ILIKE and NOT
  ILIKE.
\<close>

theorem LIKE_compile_error:
  "is_like_operator op \<longrightarrow>
     ((\<exists>e. getOperator op (PString pattern) = Inl e) \<longleftrightarrow> ends_with_dangling_escape pattern)
   \<and> (\<forall>e. getOperator op (PString pattern) = Inl e \<longrightarrow>
          e = Error ''LIKE pattern must not end with escape character'')
   \<and> (\<not> ends_with_dangling_escape pattern \<longrightarrow>
          (\<exists>f. getOperator op (PString pattern) = Inr (LikePredicate f)))
   \<and> (ends_with_dangling_escape pattern \<longrightarrow>
          (\<forall>w ast. (op, selector, PString pattern) \<in> set (simple_conditions w)
                   \<and> ast_where ast = Some w
             \<longrightarrow> (\<exists>e. buildPipeline provider ast = Inl e)))
   \<and> (\<forall>v. (\<forall>s. v \<noteq> PString s) \<and> safe_value v \<longrightarrow>
          ((\<exists>e. getOperator op v = Inl e) \<longleftrightarrow> (op = ILIKE \<or> op = NOT_ILIKE)))"
proof (intro impI conjI allI)
  assume l: "is_like_operator op"
  show "(\<exists>e. getOperator op (PString pattern) = Inl e) \<longleftrightarrow> ends_with_dangling_escape pattern"
    using l by (rule getOperator_like_error)
  { fix e assume "getOperator op (PString pattern) = Inl e"
    then show "e = Error ''LIKE pattern must not end with escape character''"
      by (rule getOperator_like_message) }
  { assume "\<not> ends_with_dangling_escape pattern"
    with getOperator_like_error[OF l, of pattern]
    obtain g where g: "getOperator op (PString pattern) = Inr g"
      by (cases "getOperator op (PString pattern)") auto
    from getOperator_like_predicate[OF l g] g
    show "\<exists>f. getOperator op (PString pattern) = Inr (LikePredicate f)" by auto }
  { fix w and ast :: AST
    assume d: "ends_with_dangling_escape pattern"
      and w: "(op, selector, PString pattern) \<in> set (simple_conditions w) \<and> ast_where ast = Some w"
    from d getOperator_like_error[OF l, of pattern] have "isl (getOperator op (PString pattern))"
      by auto
    with w have "\<not> where_compiles w"
      unfolding where_compiles_def list_all_iff by (intro notI) (drule bspec, auto)
    with w show "\<exists>e. buildPipeline provider ast = Inl e"
      by (intro buildPipeline_where_error[of ast w]) auto }
  { fix v :: primitive
    assume "(\<forall>s. v \<noteq> PString s) \<and> safe_value v"
    then have "\<forall>s. v \<noteq> PString s" by blast
    then show "(\<exists>e. getOperator op v = Inl e) \<longleftrightarrow> (op = ILIKE \<or> op = NOT_ILIKE)"
      using l by (rule getOperator_nonstring) }
qed

theorem LIKE_compile_error_witness:
  "(\<exists>e. getOperator LIKE (PString [CHR ''a'', CHR 0x5C]) = Inl e)
   \<and> (\<exists>f. getOperator NOT_ILIKE (PString ''f_o%'') = Inr (LikePredicate f))
   \<and> (\<exists>e. buildPipeline SourceStream
          (ex_ast None (Some (Conjunction OpAND
              [Simple OpEq ''a'' (PNumber (Finite 1)),
               Simple LIKE ''b'' (PString [CHR ''a'', CHR 0x5C])])) None) = Inl e)
   \<and> \<not> (\<exists>e. getOperator LIKE (PBool True) = Inl e)"
proof -
  let ?w = "Conjunction OpAND
              [Simple OpEq ''a'' (PNumber (Finite 1)),
               Simple LIKE ''b'' (PString [CHR ''a'', CHR 0x5C])]"
  have l: "is_like_operator LIKE" "is_like_operator NOT_ILIKE" by (simp_all add: is_like_operator_def)
  have d: "ends_with_dangling_escape [CHR ''a'', CHR 0x5C]"
    by (simp add: ends_with_dangling_escape_def)
  have n: "\<not> ends_with_dangling_escape ''f_o%''"
    by (simp add: ends_with_dangling_escape_def)
  have m: "(LIKE, ''b'', PString [CHR ''a'', CHR 0x5C]) \<in> set (simple_conditions ?w)
      \<and> ast_where (ex_ast None (Some ?w) None) = Some ?w"
    by (simp add: ex_ast_def)
  from LIKE_compile_error [of LIKE "[CHR ''a'', CHR 0x5C]" "''b''" SourceStream] l(1) d m
  have a: "\<exists>e. getOperator LIKE (PString [CHR ''a'', CHR 0x5C]) = Inl e"
    and b: "\<exists>e. buildPipeline SourceStream (ex_ast None (Some ?w) None) = Inl e"
    by blast+
  from LIKE_compile_error [of NOT_ILIKE "''f_o%''" "''b''" SourceStream] l(2) n
  have c: "\<exists>f. getOperator NOT_ILIKE (PString ''f_o%'') = Inr (LikePredicate f)"
    by blast
  have s: "(\<forall>s. PBool True \<noteq> PString s) \<and> safe_value (PBool True)" by simp
  from LIKE_compile_error [of LIKE "''x''" "''b''" SourceStream] l(1) s
  have d: "\<not> (\<exists>e. getOperator LIKE (PBool True) = Inl e)"
    by blast
  from a b c d show ?thesis by blast
qed

text \<open>The claim as stated fails for a pattern that is not a string: ILIKE with the
  number 5 throws while the predicate is compiled, and the string form of the pattern
  has no dangling escape.\<close>

theorem ILIKE_number_pattern_rejected:
  "getOperator ILIKE (PNumber (Finite 5)) =
     Inl (Error ''TypeError: pattern.toLowerCase is not a function'')
   \<and> String_of (PNumber (Finite 5)) = ''5''
   \<and> \<not> ends_with_dangling_escape (String_of (PNumber (Finite 5)))"
proof -
  have s: "String_of (PNumber (Finite 5)) = ''5''" by code_simp
  have "\<forall>s. PNumber (Finite 5) \<noteq> PString s" by simp
  then have "getOperator ILIKE (PNumber (Finite 5)) =
     Inl (Error ''TypeError: pattern.toLowerCase is not a function'')"
    by (simp add: getOperator_def getLikeOp_nonstring)
  moreover have "\<not> ends_with_dangling_escape ''5''"
    by (simp add: ends_with_dangling_escape_def)
  ultimately show ?thesis by (simp only: s) simp
qed

section \<open>Claim C8: which aggregates the builder accepts\<close>




section \<open>Claim C9: group-by with count and sum\<close>

text \<open>
  Claim C9. For the AST with \<open>groupBy = [g]\<close> and the aggregations \<open>count()\<close> and \<open>sum(v)\<close>,
  \<open>buildPipeline\<close> returns the reduce stage that \<open>applyGroupBy\<close> builds over the source.
  Fed the rows (g: a, v: 1), (g: a, v: 2) and (g: b, v: 5), each with its identity,
  that stage holds exactly two group rows, under the keys \<^verbatim>\<open>["a"]\<close> and \<^verbatim>\<open>["b"]\<close>: the
  first has g = a, count = 2 and sum = 3, the second g = b, count = 1 and sum = 5. After
  the row (g: a, v: 1) is removed, the row of group a has count = 1 and sum = 2, and
  group b is unchanged. The key of a group is the JSON text of the array of its
  group-column values, in the declared order, and the row of a group is its first member
  with one property set per aggregation alias (a column of the first member that is not
  an alias is kept).
\<close>

theorem groupBy_count_sum:
  "buildPipeline SourceStream ex_groupBy_ast =
     Inr (Reduce (SourceStream ''t'') [''g''] ex_aggregations)
   \<and> pipeline_groups ops (applyGroupBy (SourceStream ''t'') [''g''] ex_aggregations)
        ex_differences =
       Some [([CHR ''['', CHR 0x22, CHR ''a'', CHR 0x22, CHR '']''],
         [(''id'', Value (Some (PString ''1''))), (''g'', Value (Some (PString ''a''))),
          (''v'', Value (Some (PNumber (Finite 1)))),
          (''count'', Value (Some (PNumber (Finite 2)))),
          (''sum'', Value (Some (PNumber (Finite 3))))]),
        ([CHR ''['', CHR 0x22, CHR ''b'', CHR 0x22, CHR '']''],
         [(''id'', Value (Some (PString ''3''))), (''g'', Value (Some (PString ''b''))),
          (''v'', Value (Some (PNumber (Finite 5)))),
          (''count'', Value (Some (PNumber (Finite 1)))),
          (''sum'', Value (Some (PNumber (Finite 5))))])]
   \<and> pipeline_groups ops (applyGroupBy (SourceStream ''t'') [''g''] ex_aggregations)
        (ex_differences @ [Removed (ex_row ''1'' ''a'' 1)]) =
       Some [([CHR ''['', CHR 0x22, CHR ''a'', CHR 0x22, CHR '']''],
         [(''id'', Value (Some (PString ''2''))), (''g'', Value (Some (PString ''a''))),
          (''v'', Value (Some (PNumber (Finite 2)))),
          (''count'', Value (Some (PNumber (Finite 1)))),
          (''sum'', Value (Some (PNumber (Finite 2))))]),
        ([CHR ''['', CHR 0x22, CHR ''b'', CHR 0x22, CHR '']''],
         [(''id'', Value (Some (PString ''3''))), (''g'', Value (Some (PString ''b''))),
          (''v'', Value (Some (PNumber (Finite 5)))),
          (''count'', Value (Some (PNumber (Finite 1)))),
          (''sum'', Value (Some (PNumber (Finite 5))))])]
   \<and> ((\<forall>s \<in> set selectors. CHR ''.'' \<notin> set s) \<longrightarrow>
      makeKeyFunction selectors x =
        JSON_stringify_array (map (\<lambda>s. normalizeUndefined (row_get x s)) selectors))
   \<and> (k \<notin> set (map agg_alias aggregations) \<longrightarrow>
        map_of (group_reducer ops aggregations (first # rest)) k =
          map_option (\<lambda>v. Value (Some v)) (map_of first k))"
proof (intro conjI impI)
  show "buildPipeline SourceStream ex_groupBy_ast =
     Inr (Reduce (SourceStream ''t'') [''g''] ex_aggregations)"
    by (simp add: buildPipeline_def applyGroupBy_def ex_groupBy_ast_def)
next
  show "pipeline_groups ops (applyGroupBy (SourceStream ''t'') [''g''] ex_aggregations)
        ex_differences =
       Some [([CHR ''['', CHR 0x22, CHR ''a'', CHR 0x22, CHR '']''],
         [(''id'', Value (Some (PString ''1''))), (''g'', Value (Some (PString ''a''))),
          (''v'', Value (Some (PNumber (Finite 1)))),
          (''count'', Value (Some (PNumber (Finite 2)))),
          (''sum'', Value (Some (PNumber (Finite 3))))]),
        ([CHR ''['', CHR 0x22, CHR ''b'', CHR 0x22, CHR '']''],
         [(''id'', Value (Some (PString ''3''))), (''g'', Value (Some (PString ''b''))),
          (''v'', Value (Some (PNumber (Finite 5)))),
          (''count'', Value (Some (PNumber (Finite 1)))),
          (''sum'', Value (Some (PNumber (Finite 5))))])]"
    by (simp add: applyGroupBy_def ex_groups_value)
       (simp add: reduce_rows_def group_reducer_def ex_aggregations_def
        aggregate_cell_def field_of_def row_get_def js_add_def is_string_def
        ToNumber_nonstring_def ex_row_def)
next
  show "pipeline_groups ops (applyGroupBy (SourceStream ''t'') [''g''] ex_aggregations)
        (ex_differences @ [Removed (ex_row ''1'' ''a'' 1)]) =
       Some [([CHR ''['', CHR 0x22, CHR ''a'', CHR 0x22, CHR '']''],
         [(''id'', Value (Some (PString ''2''))), (''g'', Value (Some (PString ''a''))),
          (''v'', Value (Some (PNumber (Finite 2)))),
          (''count'', Value (Some (PNumber (Finite 1)))),
          (''sum'', Value (Some (PNumber (Finite 2))))]),
        ([CHR ''['', CHR 0x22, CHR ''b'', CHR 0x22, CHR '']''],
         [(''id'', Value (Some (PString ''3''))), (''g'', Value (Some (PString ''b''))),
          (''v'', Value (Some (PNumber (Finite 5)))),
          (''count'', Value (Some (PNumber (Finite 1)))),
          (''sum'', Value (Some (PNumber (Finite 5))))])]"
    by (simp only: applyGroupBy_def pipeline_groups.simps ex_groups_removed)
       (simp add: reduce_rows_def group_reducer_def ex_aggregations_def
        aggregate_cell_def field_of_def row_get_def js_add_def is_string_def
        ToNumber_nonstring_def ex_row_def)
next
  assume "\<forall>s \<in> set selectors. CHR ''.'' \<notin> set s"
  then have "map (\<lambda>qualifiedColumn. normalizeUndefined (getValueFromEntity x qualifiedColumn))
         (selectorsToQualifiedColumns selectors)
      = map (\<lambda>s. normalizeUndefined (row_get x s)) selectors"
    by (simp add: selectorsToQualifiedColumns_def getValueFromEntity_def)
  then show "makeKeyFunction selectors x =
        JSON_stringify_array (map (\<lambda>s. normalizeUndefined (row_get x s)) selectors)"
    by (simp add: makeKeyFunction_def)
next
  assume "k \<notin> set (map agg_alias aggregations)"
  then show "map_of (group_reducer ops aggregations (first # rest)) k =
          map_option (\<lambda>v. Value (Some v)) (map_of first k)"
    unfolding group_reducer_def by (rule group_reducer_keeps)
qed

theorem groupBy_count_sum_witness:
  "makeKeyFunction [''g''] (ex_row ''1'' ''a'' 1) = [CHR ''['', CHR 0x22, CHR ''a'', CHR 0x22, CHR '']'']
   \<and> (\<forall>ops. map_of (group_reducer ops ex_aggregations [ex_row ''1'' ''a'' 1, ex_row ''2'' ''a'' 2]) ''g''
       = Some (Value (Some (PString ''a''))))"
proof
  have h: "\<forall>s \<in> set [''g'']. CHR ''.'' \<notin> set s" by simp
  from groupBy_count_sum [where selectors = "[''g'']" and x = "ex_row ''1'' ''a'' 1"] h
  have "makeKeyFunction [''g''] (ex_row ''1'' ''a'' 1) =
      JSON_stringify_array (map (\<lambda>s. normalizeUndefined (row_get (ex_row ''1'' ''a'' 1) s)) [''g''])"
    by blast
  then show "makeKeyFunction [''g''] (ex_row ''1'' ''a'' 1)
      = [CHR ''['', CHR 0x22, CHR ''a'', CHR 0x22, CHR '']'']"
    by (simp add: ex_row_def row_get_def normalizeUndefined_def JSON_stringify_array_def
        QuoteJSONString_def QuoteJSONChar_def)
next
  show "\<forall>ops. map_of (group_reducer ops ex_aggregations [ex_row ''1'' ''a'' 1, ex_row ''2'' ''a'' 2]) ''g''
       = Some (Value (Some (PString ''a'')))"
  proof
    fix ops
    have h: "''g'' \<notin> set (map agg_alias ex_aggregations)" by (simp add: ex_aggregations_def)
    from groupBy_count_sum [where k = "''g''" and aggregations = ex_aggregations and ops = ops
        and first = "ex_row ''1'' ''a'' 1" and rest = "[ex_row ''2'' ''a'' 2]"] h
    have "map_of (group_reducer ops ex_aggregations [ex_row ''1'' ''a'' 1, ex_row ''2'' ''a'' 2]) ''g''
        = map_option (\<lambda>v. Value (Some v)) (map_of (ex_row ''1'' ''a'' 1) ''g'')" by blast
    then show "map_of (group_reducer ops ex_aggregations [ex_row ''1'' ''a'' 1, ex_row ''2'' ''a'' 2]) ''g''
         = Some (Value (Some (PString ''a'')))"
      by (simp add: ex_row_def)
  qed
qed

section \<open>Claim C10: the storage-key prefix and the entries of its own join value\<close>

text \<open>What holds. For every safe value \<open>v\<close> and every list \<open>pk\<close> of primary-key values,
  \<open>createPrimaryKeySetStorageKeyPrefix v\<close> is a prefix of
  \<open>createPrimaryKeySetStorageKey (v # pk)\<close>. For two distinct values \<open>v\<close> and \<open>w\<close> that
  are not both written \<^verbatim>\<open>null\<close> by \<^verbatim>\<open>JSON.stringify\<close> (\<^verbatim>\<open>null\<close> and the non-finite
  numbers), the prefix of \<open>v\<close> is not a prefix of any key built from \<open>w # pk'\<close>. Hence,
  over a storage holding the keys of the recorded pairs \<open>es\<close> (join value, primary key),
  the scan under the prefix of \<open>v\<close> yields exactly the keys recorded for \<open>v\<close>, provided
  no recorded value other than \<open>v\<close> collides with \<open>v\<close> in that way.\<close>

lemma pKeySet_prefix_scan:
  "list_all safe_value (v # w # pk @ pk') \<Longrightarrow>
   list_all (\<lambda>e. list_all safe_value (fst e # snd e)) es \<Longrightarrow>
   prefix (createPrimaryKeySetStorageKeyPrefix v) (createPrimaryKeySetStorageKey (v # pk))
   \<and> (v \<noteq> w \<and> \<not> (json_null_like v \<and> json_null_like w) \<longrightarrow>
        \<not> prefix (createPrimaryKeySetStorageKeyPrefix v) (createPrimaryKeySetStorageKey (w # pk')))
   \<and> ((\<forall>e \<in> set es. fst e \<noteq> v \<longrightarrow> \<not> (json_null_like v \<and> json_null_like (fst e))) \<longrightarrow>
        set (map fst (storage_scan
              (map (\<lambda>e. (createPrimaryKeySetStorageKey (fst e # snd e), True)) es)
              (createPrimaryKeySetStorageKeyPrefix v)))
        = {createPrimaryKeySetStorageKey (fst e # snd e) | e. e \<in> set es \<and> fst e = v})"
proof (intro conjI impI)
  show "prefix (createPrimaryKeySetStorageKeyPrefix v) (createPrimaryKeySetStorageKey (v # pk))"
    by (rule key_prefix_own)
next
  assume "v \<noteq> w \<and> \<not> (json_null_like v \<and> json_null_like w)"
  with key_prefix_other[of v w pk']
  show "\<not> prefix (createPrimaryKeySetStorageKeyPrefix v) (createPrimaryKeySetStorageKey (w # pk'))"
    by blast
next
  assume a: "\<forall>e \<in> set es. fst e \<noteq> v \<longrightarrow> \<not> (json_null_like v \<and> json_null_like (fst e))"
  have "\<And>e. e \<in> set es \<Longrightarrow>
      prefix (createPrimaryKeySetStorageKeyPrefix v) (createPrimaryKeySetStorageKey (fst e # snd e))
      \<longleftrightarrow> fst e = v"
    using a key_prefix_other[of v] key_prefix_own[of v] by metis
  moreover have "fst ` set (map (\<lambda>e. (createPrimaryKeySetStorageKey (fst e # snd e), True)) es)
      = (\<lambda>e. createPrimaryKeySetStorageKey (fst e # snd e)) ` set es"
    by (simp add: image_image)
  ultimately show "set (map fst (storage_scan
              (map (\<lambda>e. (createPrimaryKeySetStorageKey (fst e # snd e), True)) es)
              (createPrimaryKeySetStorageKeyPrefix v)))
        = {createPrimaryKeySetStorageKey (fst e # snd e) | e. e \<in> set es \<and> fst e = v}"
    unfolding scan_keys by (auto simp del: set_map) force
qed

lemma pKeySet_prefix_scan_example:
  "prefix (createPrimaryKeySetStorageKeyPrefix (PString ''u1''))
      (createPrimaryKeySetStorageKey [PString ''u1'', PString ''i1''])
   \<and> \<not> prefix (createPrimaryKeySetStorageKeyPrefix (PString ''u1''))
      (createPrimaryKeySetStorageKey [PString ''u2'', PString ''i3''])
   \<and> set (map fst (storage_scan
         (map (\<lambda>e. (createPrimaryKeySetStorageKey (fst e # snd e), True))
            [(PString ''u1'', [PString ''i1'']), (PString ''u2'', [PString ''i3'']),
             (PString ''u1'', [PString ''i2''])])
         (createPrimaryKeySetStorageKeyPrefix (PString ''u1''))))
     = {createPrimaryKeySetStorageKey [PString ''u1'', PString ''i1''],
        createPrimaryKeySetStorageKey [PString ''u1'', PString ''i2'']}"
proof -
  have h1: "PString ''u1'' \<noteq> PString ''u2'' \<and>
      \<not> (json_null_like (PString ''u1'') \<and> json_null_like (PString ''u2''))"
    by (simp add: json_null_like_def)
  have h2: "\<forall>e \<in> set [(PString ''u1'', [PString ''i1'']), (PString ''u2'', [PString ''i3'']),
             (PString ''u1'', [PString ''i2''])].
        fst e \<noteq> PString ''u1'' \<longrightarrow>
        \<not> (json_null_like (PString ''u1'') \<and> json_null_like (fst e))"
    by (simp add: json_null_like_def)
  have s: "{createPrimaryKeySetStorageKey (fst e # snd e) | e.
        e \<in> set [(PString ''u1'', [PString ''i1'']), (PString ''u2'', [PString ''i3'']),
             (PString ''u1'', [PString ''i2''])] \<and> fst e = PString ''u1''}
      = {createPrimaryKeySetStorageKey [PString ''u1'', PString ''i1''],
         createPrimaryKeySetStorageKey [PString ''u1'', PString ''i2'']}"
    by auto
  have p1: "list_all safe_value
      (PString ''u1'' # PString ''u2'' # [PString ''i1''] @ [PString ''i3''])" by simp
  have p2: "list_all (\<lambda>e. list_all safe_value (fst e # snd e))
      [(PString ''u1'', [PString ''i1'']), (PString ''u2'', [PString ''i3'']),
       (PString ''u1'', [PString ''i2''])]" by simp
  from pKeySet_prefix_scan [OF p1 p2] h1 h2
  show ?thesis unfolding s by blast
qed

text \<open>
  Claim C10. The prefix of a join value is claimed to be a prefix of no key built from a
  different join value, so that the scan under it selects the entries of its own value
  only. \<^verbatim>\<open>JSON.stringify\<close> writes \<^verbatim>\<open>NaN\<close>, \<^verbatim>\<open>Infinity\<close> and \<^verbatim>\<open>-Infinity\<close> as \<^verbatim>\<open>null\<close>, so
  the keys of these values and of \<^verbatim>\<open>null\<close> coincide: the prefix of \<^verbatim>\<open>null\<close> is a prefix
  of a key built from \<^verbatim>\<open>NaN\<close>, that of \<^verbatim>\<open>Infinity\<close> a prefix of a key built from
  \<^verbatim>\<open>-Infinity\<close>, and the scan under the prefix of \<^verbatim>\<open>null\<close> returns the entry recorded
  for \<^verbatim>\<open>NaN\<close>.
\<close>

theorem pKeySet_prefix_collision:
  "PNull \<noteq> PNumber NaN
   \<and> prefix (createPrimaryKeySetStorageKeyPrefix PNull)
        (createPrimaryKeySetStorageKey [PNumber NaN, PString ''i1''])
   \<and> PNumber PosInfinity \<noteq> PNumber NegInfinity
   \<and> prefix (createPrimaryKeySetStorageKeyPrefix (PNumber PosInfinity))
        (createPrimaryKeySetStorageKey [PNumber NegInfinity, PString ''i1''])
   \<and> createPrimaryKeySetStorageKey [PNull, PString ''i1'']
       = createPrimaryKeySetStorageKey [PNumber NaN, PString ''i1'']
   \<and> storage_scan [(createPrimaryKeySetStorageKey [PNumber NaN, PString ''i1''], True)]
        (createPrimaryKeySetStorageKeyPrefix PNull)
       = [(createPrimaryKeySetStorageKey [PNumber NaN, PString ''i1''], True)]"
  by (simp add: createPrimaryKeySetStorageKeyPrefix_def createPrimaryKeySetStorageKey_def
      JSON_stringify_array_def substring_def QuoteJSONString_def QuoteJSONChar_def
      storage_scan_def)

end
